theory Spec2Isabelle
  imports Main "HOL-Library.Sublist"
begin

section \<open>Messages, state dictionaries and the external collaborators\<close>

text \<open>
  The workflow of \<^verbatim>\<open>src/agent/agent.py\<close> is a LangGraph state graph around two chat
  models and a tool server.  A message is one of LangChain's four message kinds; an
  \<^verbatim>\<open>AIMessage\<close> is the only kind that has a \<^verbatim>\<open>tool_calls\<close> attribute.
\<close>

datatype tool_call = ToolCall (call_name: string) (call_args: string) (call_id: string)

datatype message =
    SystemMessage string
  | HumanMessage string
  | AIMessage string "tool_call list"
  | ToolMessage string string string

fun content :: "message \<Rightarrow> string" where
  "content (SystemMessage txt) = txt"
| "content (HumanMessage txt) = txt"
| "content (AIMessage txt calls) = txt"
| "content (ToolMessage txt name call) = txt"

text \<open>\<^verbatim>\<open>hasattr(m, "tool_calls")\<close> is \<open>tool_calls m \<noteq> None\<close>.\<close>

fun tool_calls :: "message \<Rightarrow> tool_call list option" where
  "tool_calls (AIMessage txt calls) = Some calls"
| "tool_calls (SystemMessage txt) = None"
| "tool_calls (HumanMessage txt) = None"
| "tool_calls (ToolMessage txt name call) = None"

text \<open>
  Exceptions are values.  \<open>External\<close> is whatever a model client or a tool raises;
  the other three are the Python exceptions the workflow's own expressions can raise.
\<close>

datatype error = KeyError string | ValueError string | IndexError string | External string

text \<open>
  The three \<^verbatim>\<open>TypedDict\<close> classes (\<^verbatim>\<open>FundamentalAnalysisState\<close>,
  \<^verbatim>\<open>TechnicalAnalysisState\<close>, \<^verbatim>\<open>State\<close>) are plain dictionaries at run time: the
  \<^verbatim>\<open>messages\<close> channel, which always has a value (the reducer channel starts as the
  empty list), and string-keyed entries that are absent until a node writes them.  The
  annotation \<^verbatim>\<open>Literal["buy", "sell", "hold"]\<close> of \<^verbatim>\<open>decision\<close> is not enforced by
  Python, so the field holds any string.  A node's return value is a dictionary of the
  same shape.
\<close>

record state =
  messages :: "message list"
  entries :: "string \<rightharpoonup> string"

text \<open>
  The reducer \<^verbatim>\<open>add_messages\<close> of the \<^verbatim>\<open>messages\<close> channel appends the new messages.
  (It replaces a stored message only when a new one carries the same identifier; the
  messages of a model client and of the tool node carry fresh identifiers.)  Every other
  key is overwritten.
\<close>

definition add_messages :: "message list \<Rightarrow> message list \<Rightarrow> message list" where
  "add_messages left right = left @ right"

definition apply_update :: "state \<Rightarrow> state \<Rightarrow> state" where
  "apply_update st upd =
     \<lparr>messages = add_messages (messages st) (messages upd), entries = entries st ++ entries upd\<rparr>"

text \<open>
  A chat model (\<^verbatim>\<open>llms_with_tools\<close>, \<^verbatim>\<open>reasoning_llm\<close>) is an external service.  It is
  modelled by the responses its successive invocations give, whatever the input, and it
  records every input it is invoked with.  Quantifying over all response sequences
  covers every behaviour of a real model.
\<close>

record chat_model =
  responses :: "nat \<Rightarrow> error + message"
  received :: "message list list"

definition ainvoke :: "chat_model \<Rightarrow> message list \<Rightarrow> (error + message) \<times> chat_model" where
  "ainvoke m inp = (responses m (length (received m)), m\<lparr>received := received m @ [inp]\<rparr>)"

text \<open>
  The tool server behind \<^verbatim>\<open>tools\<close>: what each requested call returns in each round,
  and the rounds executed so far.
\<close>

record toolbox =
  results :: "nat \<Rightarrow> tool_call \<Rightarrow> error + string"
  executed :: "tool_call list list"

section \<open>The prebuilt tool node and routing condition\<close>

text \<open>
  \<^verbatim>\<open>not hasattr(response, "tool_calls") or len(response.tool_calls) == 0\<close>, the test of
  all three agent nodes.
\<close>

definition no_tool_calls :: "message \<Rightarrow> bool" where
  "no_tool_calls response =
     (case tool_calls response of None \<Rightarrow> True | Some calls \<Rightarrow> length calls = 0)"

datatype route = To_tools | To_end

text \<open>
  LangGraph's \<^verbatim>\<open>tools_condition\<close>: it looks at the last stored message and answers
  \<^verbatim>\<open>"tools"\<close> when that message has a non-empty \<^verbatim>\<open>tool_calls\<close>, \<^verbatim>\<open>"__end__"\<close>
  otherwise; it raises on an empty message list.
\<close>

definition tools_condition :: "state \<Rightarrow> error + route" where
  "tools_condition st =
     (if messages st = [] then Inl (ValueError ''No messages found in input state to tool_edge'')
      else (case tool_calls (last (messages st)) of
              None \<Rightarrow> Inr To_end
            | Some calls \<Rightarrow> if length calls > 0 then Inr To_tools else Inr To_end))"

text \<open>
  LangGraph's \<^verbatim>\<open>ToolNode(tools=tools)\<close>: it runs every tool call of the last message,
  which must be an \<^verbatim>\<open>AIMessage\<close>, and returns one \<^verbatim>\<open>ToolMessage\<close> per call, in the
  order of the calls.  An exception of a tool aborts the node.
\<close>

fun run_calls :: "(tool_call \<Rightarrow> error + string) \<Rightarrow> tool_call list \<Rightarrow> error + message list" where
  "run_calls f [] = Inr []"
| "run_calls f (c # cs) =
     (case f c of
        Inl e \<Rightarrow> Inl e
      | Inr out \<Rightarrow>
          (case run_calls f cs of
             Inl e \<Rightarrow> Inl e
           | Inr ms \<Rightarrow> Inr (ToolMessage out (call_name c) (call_id c) # ms)))"

definition tool_node :: "state \<Rightarrow> toolbox \<Rightarrow> (error + state) \<times> toolbox" where
  "tool_node st tb =
     (if messages st = [] then (Inl (ValueError ''No message found in input''), tb)
      else (case tool_calls (last (messages st)) of
              None \<Rightarrow> (Inl (ValueError ''Last message is not an AIMessage''), tb)
            | Some calls \<Rightarrow>
                (case run_calls (results tb (length (executed tb))) calls of
                   Inl e \<Rightarrow> (Inl e, tb\<lparr>executed := executed tb @ [calls]\<rparr>)
                 | Inr ms \<Rightarrow>
                     (Inr \<lparr>messages = ms, entries = Map.empty\<rparr>,
                      tb\<lparr>executed := executed tb @ [calls]\<rparr>))))"

section \<open>The three agent nodes\<close>

definition FUNDAMENTAL_ANALYSIS_SYSTEM_PROMPT :: string where
  "FUNDAMENTAL_ANALYSIS_SYSTEM_PROMPT =
     ''Perform a fundamental analysis of the stock. Provide a detailed analysis including financial ratios, earnings reports, and other relevant information. Use the ask perplexity tool to search for the fundamental analysis.''"

definition TECHNICAL_ANALYSIS_SYSTEM_PROMPT :: string where
  "TECHNICAL_ANALYSIS_SYSTEM_PROMPT =
     ''Perform a technical analysis of the stock. Analyze charts, trends, and technical indicators. Use the ask perplexity tool to search for technical analysis.''"

definition STOCK_NAME_SYSTEM_PROMPT :: string where
  "STOCK_NAME_SYSTEM_PROMPT =
     ''Get the name of the stock to analyze. Only return the name in the format 'Company Name (Ticker)'. Eg: 'Tata Motors Ltd. (NSE:TATAMOTORS)' and nothing else. Only fetch the ticker symbol for NSE. Use the ask perplexity tool to search for the stock ticker.''"

definition get_fundamental_analysis :: "state \<Rightarrow> chat_model \<Rightarrow> (error + state) \<times> chat_model" where
  "get_fundamental_analysis st llms_with_tools =
     (case entries st ''stock_name'' of
        None \<Rightarrow> (Inl (KeyError ''stock_name''), llms_with_tools)
      | Some stock \<Rightarrow>
          (let messages_with_prompt =
                 [SystemMessage FUNDAMENTAL_ANALYSIS_SYSTEM_PROMPT,
                  HumanMessage (''The stock to analyze is '' @ stock)] @ messages st
           in case ainvoke llms_with_tools messages_with_prompt of
                (Inl e, llm') \<Rightarrow> (Inl e, llm')
              | (Inr response, llm') \<Rightarrow>
                  if no_tool_calls response
                  then (Inr \<lparr>messages = [response],
                             entries = [''fundamental_analysis'' \<mapsto> content response]\<rparr>, llm')
                  else (Inr \<lparr>messages = [response], entries = Map.empty\<rparr>, llm')))"

definition get_technical_analysis :: "state \<Rightarrow> chat_model \<Rightarrow> (error + state) \<times> chat_model" where
  "get_technical_analysis st llms_with_tools =
     (case entries st ''stock_name'' of
        None \<Rightarrow> (Inl (KeyError ''stock_name''), llms_with_tools)
      | Some stock \<Rightarrow>
          (let messages_with_prompt =
                 [SystemMessage TECHNICAL_ANALYSIS_SYSTEM_PROMPT,
                  HumanMessage (''The stock to analyze is '' @ stock)] @ messages st
           in case ainvoke llms_with_tools messages_with_prompt of
                (Inl e, llm') \<Rightarrow> (Inl e, llm')
              | (Inr response, llm') \<Rightarrow>
                  if no_tool_calls response
                  then (Inr \<lparr>messages = [response],
                             entries = [''technical_analysis'' \<mapsto> content response]\<rparr>, llm')
                  else (Inr \<lparr>messages = [response], entries = Map.empty\<rparr>, llm')))"

definition get_stock_name :: "state \<Rightarrow> chat_model \<Rightarrow> (error + state) \<times> chat_model" where
  "get_stock_name st llms_with_tools =
     (let messages_with_prompt = [SystemMessage STOCK_NAME_SYSTEM_PROMPT] @ messages st
      in case ainvoke llms_with_tools messages_with_prompt of
           (Inl e, llm') \<Rightarrow> (Inl e, llm')
         | (Inr response, llm') \<Rightarrow>
             if no_tool_calls response
             then (Inr \<lparr>messages = [response],
                        entries = [''stock_name'' \<mapsto> content response]\<rparr>, llm')
             else (Inr \<lparr>messages = [response], entries = Map.empty\<rparr>, llm'))"

section \<open>Running a tool-loop graph\<close>

text \<open>
  The three graphs with a tool loop have the same wiring: \<^verbatim>\<open>START\<close> to the agent node,
  a conditional edge \<^verbatim>\<open>tools_condition\<close> from the agent node to its tool node or to the
  \<^verbatim>\<open>"__end__"\<close> target, and an edge from the tool node back to the agent node.  A run is
  the position in the graph, the state, the collaborators, and the stream of node
  updates applied so far.  One step executes the node the run is at.
\<close>

datatype node = Agent | Tool_node

datatype cursor = Next node | Ended | Raised error

record run =
  cursor :: cursor
  current :: state
  llm :: chat_model
  tools :: toolbox
  stream :: "(node \<times> state) list"

definition graph_step ::
  "(state \<Rightarrow> chat_model \<Rightarrow> (error + state) \<times> chat_model) \<Rightarrow> run \<Rightarrow> run" where
  "graph_step agent r =
     (case cursor r of
        Next Agent \<Rightarrow>
          (case agent (current r) (llm r) of
             (Inl e, m) \<Rightarrow> r\<lparr>cursor := Raised e, llm := m\<rparr>
           | (Inr upd, m) \<Rightarrow>
               (let st' = apply_update (current r) upd
                in r\<lparr>cursor := (case tools_condition st' of
                                   Inl e \<Rightarrow> Raised e
                                 | Inr To_tools \<Rightarrow> Next Tool_node
                                 | Inr To_end \<Rightarrow> Ended),
                      current := st', llm := m, stream := stream r @ [(Agent, upd)]\<rparr>))
      | Next Tool_node \<Rightarrow>
          (case tool_node (current r) (tools r) of
             (Inl e, tb) \<Rightarrow> r\<lparr>cursor := Raised e, tools := tb\<rparr>
           | (Inr upd, tb) \<Rightarrow>
               r\<lparr>cursor := Next Agent, current := apply_update (current r) upd, tools := tb,
                  stream := stream r @ [(Tool_node, upd)]\<rparr>)
      | Ended \<Rightarrow> r
      | Raised e \<Rightarrow> r)"

text \<open>
  The source sets no bound on the number of steps, and a model that keeps requesting
  tools keeps the loop running.  \<open>run_graph agent n\<close> is the run after at most \<open>n\<close> node
  executions, the number the runtime allows (LangGraph calls it the recursion limit of
  the invocation); a run that is neither ended nor raised after them has no outcome.
\<close>

definition run_graph ::
  "(state \<Rightarrow> chat_model \<Rightarrow> (error + state) \<times> chat_model) \<Rightarrow> nat \<Rightarrow> run \<Rightarrow> run" where
  "run_graph agent n r = (graph_step agent ^^ n) r"

definition start :: "state \<Rightarrow> chat_model \<Rightarrow> toolbox \<Rightarrow> run" where
  "start inp m tb = \<lparr>cursor = Next Agent, current = inp, llm = m, tools = tb, stream = []\<rparr>"

definition outcome :: "run \<Rightarrow> (error + state) option" where
  "outcome r =
     (case cursor r of Ended \<Rightarrow> Some (Inr (current r)) | Raised e \<Rightarrow> Some (Inl e) | Next n \<Rightarrow> None)"

text \<open>
  The three tool loops: the one of \<^verbatim>\<open>stock_graph\<close> around \<^verbatim>\<open>get_stock_name\<close>, and the
  compiled graphs \<^verbatim>\<open>fsubgraph\<close> and \<^verbatim>\<open>tsubgraph\<close>, here as the function that
  executes one node.
\<close>

datatype loop = Name_resolution | Fundamental | Technical

fun agent_of :: "loop \<Rightarrow> state \<Rightarrow> chat_model \<Rightarrow> (error + state) \<times> chat_model" where
  "agent_of Name_resolution = get_stock_name"
| "agent_of Fundamental = get_fundamental_analysis"
| "agent_of Technical = get_technical_analysis"

fun output_field :: "loop \<Rightarrow> string" where
  "output_field Name_resolution = ''stock_name''"
| "output_field Fundamental = ''fundamental_analysis''"
| "output_field Technical = ''technical_analysis''"

definition fsubgraph :: "run \<Rightarrow> run" where
  "fsubgraph = graph_step get_fundamental_analysis"

definition tsubgraph :: "run \<Rightarrow> run" where
  "tsubgraph = graph_step get_technical_analysis"

section \<open>The decision step\<close>

text \<open>
  Python's \<^verbatim>\<open>str.format\<close> with keyword arguments, for templates whose replacement
  fields are plain names: a doubled brace is a literal brace, \<^verbatim>\<open>{name}\<close> is replaced by
  the argument of that name, and the substituted text is not scanned again.  Positional
  fields, conversions and format specifications, which the template of this program
  does not use, are outside the model.
\<close>

datatype scan = Literal | Opened | Named string | Closed

definition emit :: "string \<Rightarrow> error + string \<Rightarrow> error + string" where
  "emit s rest = (case rest of Inl e \<Rightarrow> Inl e | Inr t \<Rightarrow> Inr (s @ t))"

fun format_from :: "(string \<rightharpoonup> string) \<Rightarrow> scan \<Rightarrow> string \<Rightarrow> error + string" where
  "format_from kwargs Literal [] = Inr []"
| "format_from kwargs Literal (c # cs) =
     (if c = CHR ''{'' then format_from kwargs Opened cs
      else if c = CHR ''}'' then format_from kwargs Closed cs
      else emit [c] (format_from kwargs Literal cs))"
| "format_from kwargs Opened [] = Inl (ValueError ''Single { encountered in format string'')"
| "format_from kwargs Opened (c # cs) =
     (if c = CHR ''{'' then emit [c] (format_from kwargs Literal cs)
      else if c = CHR ''}'' then Inl (IndexError ''Replacement index 0 out of range'')
      else format_from kwargs (Named [c]) cs)"
| "format_from kwargs (Named name) [] = Inl (ValueError ''expected } before end of string'')"
| "format_from kwargs (Named name) (c # cs) =
     (if c = CHR ''}''
      then (case kwargs name of
              None \<Rightarrow> Inl (KeyError name)
            | Some v \<Rightarrow> emit v (format_from kwargs Literal cs))
      else format_from kwargs (Named (name @ [c])) cs)"
| "format_from kwargs Closed [] = Inl (ValueError ''Single } encountered in format string'')"
| "format_from kwargs Closed (c # cs) =
     (if c = CHR ''}'' then emit [c] (format_from kwargs Literal cs)
      else Inl (ValueError ''Single } encountered in format string''))"

definition str_format :: "string \<Rightarrow> (string \<rightharpoonup> string) \<Rightarrow> error + string" where
  "str_format template kwargs = format_from kwargs Literal template"

definition DECISION_SYSTEM_PROMPT :: string where
  "DECISION_SYSTEM_PROMPT =
     ''\<newline>    Based on the fundamental analysis: {fundamental_analysis}\<newline>    And technical analysis: {technical_analysis}\<newline>    \<newline>    Make a buy, sell, or hold decision for {stock_name}.\<newline>    ''"

text \<open>\<^verbatim>\<open>state.get(key, default)\<close>.\<close>

definition dict_get :: "state \<Rightarrow> string \<Rightarrow> string \<Rightarrow> string" where
  "dict_get st k dflt = (case entries st k of None \<Rightarrow> dflt | Some v \<Rightarrow> v)"

definition make_decision :: "state \<Rightarrow> chat_model \<Rightarrow> (error + state) \<times> chat_model" where
  "make_decision st reasoning_llm =
     (case str_format DECISION_SYSTEM_PROMPT
             [''fundamental_analysis'' \<mapsto> dict_get st ''fundamental_analysis'' ''Not available'',
              ''technical_analysis'' \<mapsto> dict_get st ''technical_analysis'' ''Not available'',
              ''stock_name'' \<mapsto> dict_get st ''stock_name'' ''Unknown''] of
        Inl e \<Rightarrow> (Inl e, reasoning_llm)
      | Inr decision_prompt \<Rightarrow>
          (case ainvoke reasoning_llm [HumanMessage decision_prompt] of
             (Inl e, llm') \<Rightarrow> (Inl e, llm')
           | (Inr response, llm') \<Rightarrow>
               (Inr \<lparr>messages = [response], entries = [''decision'' \<mapsto> content response]\<rparr>,
                llm')))"

text \<open>\<^verbatim>\<open>sub in s\<close> on strings.\<close>

fun starts_with :: "string \<Rightarrow> string \<Rightarrow> bool" where
  "starts_with s [] = True"
| "starts_with [] (c # sub) = False"
| "starts_with (d # s) (c # sub) = (d = c \<and> starts_with s sub)"

fun contains :: "string \<Rightarrow> string \<Rightarrow> bool" where
  "contains [] sub = (sub = [])"
| "contains (d # s) sub = (starts_with (d # s) sub \<or> contains s sub)"

section \<open>The aggregator\<close>

text \<open>
  \<^verbatim>\<open>asyncio.gather\<close> of the two sub-graph invocations.  The two tasks run on one event
  loop, each on a state and on collaborators of its own; the schedule is the order in
  which the event loop lets them execute a node.  The first exception to surface is
  raised to the caller at once; the results of two completed tasks are returned in the
  order of the arguments.
\<close>

datatype task = Fundamental_task | Technical_task

definition joined :: "run \<Rightarrow> run \<Rightarrow> (error + state \<times> state) option" where
  "joined f t =
     (case cursor f of
        Raised e \<Rightarrow> Some (Inl e)
      | Ended \<Rightarrow>
          (case cursor t of
             Raised e \<Rightarrow> Some (Inl e)
           | Ended \<Rightarrow> Some (Inr (current f, current t))
           | Next n \<Rightarrow> None)
      | Next n \<Rightarrow> (case cursor t of Raised e \<Rightarrow> Some (Inl e) | Ended \<Rightarrow> None | Next n' \<Rightarrow> None))"

fun gather :: "task list \<Rightarrow> run \<Rightarrow> run \<Rightarrow> (error + state \<times> state) option \<times> run \<times> run" where
  "gather [] f t = (joined f t, f, t)"
| "gather (x # schedule) f t =
     (case joined f t of
        Some res \<Rightarrow> (Some res, f, t)
      | None \<Rightarrow>
          (case x of
             Fundamental_task \<Rightarrow> gather schedule (fsubgraph f) t
           | Technical_task \<Rightarrow> gather schedule f (tsubgraph t)))"

text \<open>
  The collaborators of the two analysis loops (the responses and tool results each loop
  gets from the shared \<^verbatim>\<open>llms_with_tools\<close> and \<^verbatim>\<open>tools\<close>) and the schedule of the
  event loop.
\<close>

record analysts =
  fundamental_llm :: chat_model
  fundamental_tools :: toolbox
  technical_llm :: chat_model
  technical_tools :: toolbox
  schedule :: "task list"

text \<open>
  The two coroutines \<^verbatim>\<open>fsubgraph.ainvoke({"stock_name": state["stock_name"]})\<close> and
  \<^verbatim>\<open>tsubgraph.ainvoke({"stock_name": state["stock_name"]})\<close> before they have executed
  a node: the input holds the stock name and nothing else.
\<close>

definition fundamental_task :: "string \<Rightarrow> analysts \<Rightarrow> run" where
  "fundamental_task stock a =
     start \<lparr>messages = [], entries = [''stock_name'' \<mapsto> stock]\<rparr>
       (fundamental_llm a) (fundamental_tools a)"

definition technical_task :: "string \<Rightarrow> analysts \<Rightarrow> run" where
  "technical_task stock a =
     start \<lparr>messages = [], entries = [''stock_name'' \<mapsto> stock]\<rparr>
       (technical_llm a) (technical_tools a)"

text \<open>The dictionary that \<^verbatim>\<open>continue_to_analyses\<close> builds from the two results.\<close>

definition merge_results :: "state \<Rightarrow> state \<Rightarrow> error + state" where
  "merge_results fundamental_result technical_result =
     (let msgs = messages fundamental_result @ messages technical_result
      in case entries fundamental_result ''fundamental_analysis'' of
           None \<Rightarrow> Inl (KeyError ''fundamental_analysis'')
         | Some fundamental \<Rightarrow>
             (case entries technical_result ''technical_analysis'' of
                None \<Rightarrow> Inl (KeyError ''technical_analysis'')
              | Some technical \<Rightarrow>
                  Inr \<lparr>messages = msgs,
                       entries = [''fundamental_analysis'' \<mapsto> fundamental,
                                  ''technical_analysis'' \<mapsto> technical]\<rparr>))"

text \<open>
  \<^verbatim>\<open>continue_to_analyses\<close>, with the two runs as the tasks left them.  The result is
  \<open>None\<close> while the schedule has not brought the tasks to a result.
\<close>

definition continue_to_analyses ::
  "state \<Rightarrow> analysts \<Rightarrow> (error + state) option \<times> run \<times> run" where
  "continue_to_analyses st a =
     (case entries st ''stock_name'' of
        None \<Rightarrow>
          (Some (Inl (KeyError ''stock_name'')),
           start \<lparr>messages = [], entries = Map.empty\<rparr> (fundamental_llm a) (fundamental_tools a),
           start \<lparr>messages = [], entries = Map.empty\<rparr> (technical_llm a) (technical_tools a))
      | Some stock \<Rightarrow>
          (case gather (schedule a) (fundamental_task stock a) (technical_task stock a) of
             (None, f, t) \<Rightarrow> (None, f, t)
           | (Some (Inl e), f, t) \<Rightarrow> (Some (Inl e), f, t)
           | (Some (Inr (fundamental_result, technical_result)), f, t) \<Rightarrow>
               (Some (merge_results fundamental_result technical_result), f, t)))"

section \<open>The top-level workflow\<close>

text \<open>
  \<^verbatim>\<open>stock_graph\<close>: the tool loop around \<^verbatim>\<open>get_stock_name\<close>, whose \<^verbatim>\<open>"__end__"\<close> branch
  leads to \<^verbatim>\<open>continue_to_analyses\<close>, then \<^verbatim>\<open>make_decision\<close>, then \<^verbatim>\<open>END\<close>.  The graph
  is compiled without a checkpointer, so a caller sees the final state or the exception
  and nothing else.  The result is \<open>None\<close> when the steps allowed do not finish the name
  loop or the schedule does not finish the analyses.
\<close>

record world =
  name_llm :: chat_model
  name_tools :: toolbox
  analysis :: analysts
  reasoning_llm :: chat_model

definition stock_graph :: "nat \<Rightarrow> world \<Rightarrow> state \<Rightarrow> (error + state) option" where
  "stock_graph n w inp =
     (let r = run_graph get_stock_name n (start inp (name_llm w) (name_tools w))
      in case cursor r of
           Next nd \<Rightarrow> None
         | Raised e \<Rightarrow> Some (Inl e)
         | Ended \<Rightarrow>
             (case continue_to_analyses (current r) (analysis w) of
                (None, f, t) \<Rightarrow> None
              | (Some (Inl e), f, t) \<Rightarrow> Some (Inl e)
              | (Some (Inr upd), f, t) \<Rightarrow>
                  (let st' = apply_update (current r) upd
                   in case make_decision st' (reasoning_llm w) of
                        (Inl e, llm') \<Rightarrow> Some (Inl e)
                      | (Inr upd', llm') \<Rightarrow> Some (Inr (apply_update st' upd')))))"

section \<open>Closed forms of a tool-loop run\<close>

text \<open>
  The part of \<^verbatim>\<open>messages_with_prompt\<close> that each agent node puts before the stored
  messages (the analysis nodes raise \<^verbatim>\<open>KeyError\<close> when the state has no
  \<^verbatim>\<open>stock_name\<close>), and the dictionary an agent node returns for a response.
\<close>

fun preamble :: "loop \<Rightarrow> state \<Rightarrow> error + message list" where
  "preamble Name_resolution st = Inr [SystemMessage STOCK_NAME_SYSTEM_PROMPT]"
| "preamble Fundamental st =
     (case entries st ''stock_name'' of
        None \<Rightarrow> Inl (KeyError ''stock_name'')
      | Some stock \<Rightarrow>
          Inr [SystemMessage FUNDAMENTAL_ANALYSIS_SYSTEM_PROMPT,
               HumanMessage (''The stock to analyze is '' @ stock)])"
| "preamble Technical st =
     (case entries st ''stock_name'' of
        None \<Rightarrow> Inl (KeyError ''stock_name'')
      | Some stock \<Rightarrow>
          Inr [SystemMessage TECHNICAL_ANALYSIS_SYSTEM_PROMPT,
               HumanMessage (''The stock to analyze is '' @ stock)])"

definition agent_update :: "loop \<Rightarrow> message \<Rightarrow> state" where
  "agent_update L resp =
     \<lparr>messages = [resp],
      entries = (if no_tool_calls resp then [output_field L \<mapsto> content resp] else Map.empty)\<rparr>"

text \<open>
  Seen from a model that has already been invoked \<open>length (received m)\<close> times,
  \<open>upcoming m i\<close> is what its \<open>i\<close>-th invocation from now on returns (counting from 0);
  \<open>requested m i\<close> are the tool calls of that response (none when the model raises or
  the response has no \<^verbatim>\<open>tool_calls\<close>), \<open>reply m i\<close> is the response as a list (empty when
  the model raises) and \<open>answer m i\<close> its text.  In the same way \<open>upcoming_results tb i\<close>
  is what the tools return in the \<open>i\<close>-th round from now on, and \<open>tool_results tb i calls\<close>
  are the tool messages of that round for the given calls.  \<open>transcript m tb n\<close> is what
  \<open>n\<close> rounds add to the stored messages: each response, followed by the results of its
  tool calls.
\<close>

definition upcoming :: "chat_model \<Rightarrow> nat \<Rightarrow> error + message" where
  "upcoming m i = responses m (length (received m) + i)"

definition upcoming_results :: "toolbox \<Rightarrow> nat \<Rightarrow> tool_call \<Rightarrow> error + string" where
  "upcoming_results tb i = results tb (length (executed tb) + i)"

definition requested :: "chat_model \<Rightarrow> nat \<Rightarrow> tool_call list" where
  "requested m i =
     (case upcoming m i of
        Inl e \<Rightarrow> []
      | Inr resp \<Rightarrow> (case tool_calls resp of None \<Rightarrow> [] | Some calls \<Rightarrow> calls))"

definition reply :: "chat_model \<Rightarrow> nat \<Rightarrow> message list" where
  "reply m i = (case upcoming m i of Inl e \<Rightarrow> [] | Inr resp \<Rightarrow> [resp])"

definition answer :: "chat_model \<Rightarrow> nat \<Rightarrow> string" where
  "answer m i = (case upcoming m i of Inl e \<Rightarrow> [] | Inr resp \<Rightarrow> content resp)"

definition tool_results :: "toolbox \<Rightarrow> nat \<Rightarrow> tool_call list \<Rightarrow> message list" where
  "tool_results tb i calls =
     (case run_calls (upcoming_results tb i) calls of Inl e \<Rightarrow> [] | Inr ms \<Rightarrow> ms)"

fun transcript :: "chat_model \<Rightarrow> toolbox \<Rightarrow> nat \<Rightarrow> message list" where
  "transcript m tb 0 = []"
| "transcript m tb (Suc n) =
     transcript m tb n @ reply m n @ tool_results tb n (requested m n)"

text \<open>
  The \<open>i\<close>-th response from now on requests at least one tool call; no tool raises on
  the given calls in the \<open>i\<close>-th round from now on; the \<open>i\<close>-th response from now on
  is a message without tool calls.
\<close>

definition asks_for_tools :: "chat_model \<Rightarrow> nat \<Rightarrow> bool" where
  "asks_for_tools m i = (requested m i \<noteq> [])"

definition tools_succeed :: "toolbox \<Rightarrow> nat \<Rightarrow> tool_call list \<Rightarrow> bool" where
  "tools_succeed tb i calls =
     (case run_calls (upcoming_results tb i) calls of Inl e \<Rightarrow> False | Inr ms \<Rightarrow> True)"

definition answers :: "chat_model \<Rightarrow> nat \<Rightarrow> bool" where
  "answers m i = (case upcoming m i of Inl e \<Rightarrow> False | Inr resp \<Rightarrow> no_tool_calls resp)"

text \<open>
  The run after \<open>n\<close> rounds of model call and tool execution, and the run that ends
  with the answer to the invocation after them.
\<close>

definition round_updates :: "chat_model \<Rightarrow> toolbox \<Rightarrow> nat \<Rightarrow> (node \<times> state) list" where
  "round_updates m tb i =
     [(Agent, \<lparr>messages = reply m i, entries = Map.empty\<rparr>),
      (Tool_node, \<lparr>messages = tool_results tb i (requested m i), entries = Map.empty\<rparr>)]"

definition after_rounds :: "message list \<Rightarrow> run \<Rightarrow> nat \<Rightarrow> run" where
  "after_rounds pre r n =
     r\<lparr>current := \<lparr>messages = messages (current r) @ transcript (llm r) (tools r) n,
                   entries = entries (current r)\<rparr>,
       llm := (llm r)\<lparr>received := received (llm r) @
                 map (\<lambda>i. pre @ messages (current r) @ transcript (llm r) (tools r) i) [0..<n]\<rparr>,
       tools := (tools r)\<lparr>executed := executed (tools r) @ map (requested (llm r)) [0..<n]\<rparr>,
       stream := stream r @ concat (map (round_updates (llm r) (tools r)) [0..<n])\<rparr>"

definition after_answer :: "loop \<Rightarrow> message list \<Rightarrow> run \<Rightarrow> nat \<Rightarrow> run" where
  "after_answer L pre r n =
     r\<lparr>cursor := Ended,
       current := \<lparr>messages = messages (current r) @ transcript (llm r) (tools r) n @ reply (llm r) n,
                   entries = (entries (current r))(output_field L \<mapsto> answer (llm r) n)\<rparr>,
       llm := (llm r)\<lparr>received := received (llm r) @
                 map (\<lambda>i. pre @ messages (current r) @ transcript (llm r) (tools r) i) [0..<Suc n]\<rparr>,
       tools := (tools r)\<lparr>executed := executed (tools r) @ map (requested (llm r)) [0..<n]\<rparr>,
       stream := stream r @ concat (map (round_updates (llm r) (tools r)) [0..<n]) @
                 [(Agent, \<lparr>messages = reply (llm r) n,
                            entries = [output_field L \<mapsto> answer (llm r) n]\<rparr>)]\<rparr>"

text \<open>The decision template with its three fields filled in.\<close>

definition decision_text :: "string \<Rightarrow> string \<Rightarrow> string \<Rightarrow> string" where
  "decision_text fundamental technical stock =
     ''\<newline>    Based on the fundamental analysis: '' @ fundamental @
     ''\<newline>    And technical analysis: '' @ technical @
     ''\<newline>    \<newline>    Make a buy, sell, or hold decision for '' @ stock @ ''.\<newline>    ''"

section \<open>The stream of updates of a tool loop\<close>

text \<open>
  What the updates of a run look like.  An agent update is \<open>asking\<close> when its one
  message requests tools and it writes no field, and \<open>final\<close> when its one message
  requests none and it writes the text of that message to the output field of the loop.
  A tool update \<open>answers\<close> an asking update when it holds one tool message per requested
  call, in the order of the calls and with their names and identifiers, and writes no
  field.  A stream \<open>alternates\<close> when it consists of asking updates, each followed by
  the tool update that answers it, possibly followed by one last agent update.
  \<open>writes\<close> selects the updates that write the output field, and \<open>turn_ok\<close> says that
  an agent update writes the output field exactly when its response requests no tool,
  and that a tool update writes nothing.
\<close>

fun answers_calls :: "tool_call list \<Rightarrow> message list \<Rightarrow> bool" where
  "answers_calls [] [] = True"
| "answers_calls (c # cs) (ToolMessage out name call # ms) =
     (name = call_name c \<and> call = call_id c \<and> answers_calls cs ms)"
| "answers_calls cs ms = False"

definition calls_of :: "message \<Rightarrow> tool_call list" where
  "calls_of resp = (case tool_calls resp of None \<Rightarrow> [] | Some calls \<Rightarrow> calls)"

definition asking :: "state \<Rightarrow> bool" where
  "asking upd =
     (case messages upd of
        [resp] \<Rightarrow> \<not> no_tool_calls resp \<and> entries upd = Map.empty
      | _ \<Rightarrow> False)"

definition final :: "loop \<Rightarrow> state \<Rightarrow> bool" where
  "final L upd =
     (case messages upd of
        [resp] \<Rightarrow> no_tool_calls resp \<and> entries upd = [output_field L \<mapsto> content resp]
      | _ \<Rightarrow> False)"

definition answered :: "state \<Rightarrow> state \<Rightarrow> bool" where
  "answered upd res =
     (answers_calls (concat (map calls_of (messages upd))) (messages res) \<and>
      entries res = Map.empty)"

fun rounds :: "(node \<times> state) list \<Rightarrow> bool" where
  "rounds [] = True"
| "rounds ((Agent, upd) # (Tool_node, res) # rest) =
     (asking upd \<and> answered upd res \<and> rounds rest)"
| "rounds s = False"

fun alternates :: "loop \<Rightarrow> (node \<times> state) list \<Rightarrow> bool" where
  "alternates L [] = True"
| "alternates L [(Agent, upd)] = (asking upd \<or> final L upd)"
| "alternates L ((Agent, upd) # (Tool_node, res) # rest) =
     (asking upd \<and> answered upd res \<and> alternates L rest)"
| "alternates L s = False"

definition writes :: "loop \<Rightarrow> (node \<times> state) list \<Rightarrow> (node \<times> state) list" where
  "writes L s = filter (\<lambda>(nd, upd). entries upd (output_field L) \<noteq> None) s"

definition turn_ok :: "loop \<Rightarrow> node \<times> state \<Rightarrow> bool" where
  "turn_ok L x =
     (case x of
        (Agent, upd) \<Rightarrow>
          (case messages upd of
             [resp] \<Rightarrow> (entries upd (output_field L) \<noteq> None) = no_tool_calls resp \<and>
                       (no_tool_calls resp \<longrightarrow> entries upd (output_field L) = Some (content resp))
           | _ \<Rightarrow> False)
      | (Tool_node, res) \<Rightarrow> entries res = Map.empty)"

definition pending :: "(node \<times> state) list \<Rightarrow> bool" where
  "pending s =
     (s \<noteq> [] \<and> rounds (butlast s) \<and> fst (last s) = Agent \<and> asking (snd (last s)))"

definition finished :: "loop \<Rightarrow> (node \<times> state) list \<Rightarrow> bool" where
  "finished L s =
     (s \<noteq> [] \<and> rounds (butlast s) \<and> fst (last s) = Agent \<and> final L (snd (last s)))"

definition loop_inv :: "loop \<Rightarrow> run \<Rightarrow> bool" where
  "loop_inv L r =
     (case cursor r of
        Next Agent \<Rightarrow> rounds (stream r)
      | Next Tool_node \<Rightarrow>
          pending (stream r) \<and> messages (current r) \<noteq> [] \<and>
          messages (snd (last (stream r))) = [last (messages (current r))]
      | Ended \<Rightarrow> finished L (stream r)
      | Raised e \<Rightarrow> rounds (stream r) \<or> pending (stream r))"

text \<open>
  The messages a stream of updates has added to the stored list; the input of the
  \<open>j\<close>-th model invocation of a run as the prompt, the messages the run started with,
  and the messages of the updates before that invocation; and the origin of each update:
  an agent update holds the response of the model to its invocation and nothing else,
  a tool update holds tool messages only.
\<close>

definition history :: "(node \<times> state) list \<Rightarrow> message list" where
  "history s = concat (map (\<lambda>x. messages (snd x)) s)"

definition prompted :: "message list \<Rightarrow> message list \<Rightarrow> (node \<times> state) list \<Rightarrow> nat \<Rightarrow> message list" where
  "prompted pre seed s j = pre @ seed @ history (take (2 * j) s)"

fun is_tool_message :: "message \<Rightarrow> bool" where
  "is_tool_message (ToolMessage txt name call) = True"
| "is_tool_message other = False"

definition sourced_at :: "chat_model \<Rightarrow> (node \<times> state) list \<Rightarrow> nat \<Rightarrow> bool" where
  "sourced_at m s i =
     (if even i
      then fst (s ! i) = Agent \<and> messages (snd (s ! i)) = reply m (i div 2) \<and>
           length (reply m (i div 2)) = 1
      else fst (s ! i) = Tool_node \<and> list_all is_tool_message (messages (snd (s ! i))))"

definition sourced :: "chat_model \<Rightarrow> (node \<times> state) list \<Rightarrow> bool" where
  "sourced m s = list_all (sourced_at m s) [0..<length s]"

definition invocations :: "chat_model \<Rightarrow> run \<Rightarrow> nat" where
  "invocations m r = length (received (llm r)) - length (received m)"

definition prompt_inv :: "loop \<Rightarrow> message list \<Rightarrow> state \<Rightarrow> chat_model \<Rightarrow> run \<Rightarrow> bool" where
  "prompt_inv L pre inp m r =
     (messages (current r) = messages inp @ history (stream r) \<and>
      responses (llm r) = responses m \<and>
      received (llm r) =
        received m @ map (prompted pre (messages inp) (stream r)) [0..<invocations m r] \<and>
      sourced m (stream r) \<and>
      (case cursor r of
         Next Agent \<Rightarrow> length (stream r) = 2 * invocations m r \<and> preamble L (current r) = Inr pre
       | Next Tool_node \<Rightarrow> Suc (length (stream r)) = 2 * invocations m r \<and> preamble L (current r) = Inr pre
       | Ended \<Rightarrow> True
       | Raised e \<Rightarrow> True))"

section \<open>Example scenarios\<close>

text \<open>
  A name-resolution model that asks for one search and then answers, a tool server, and
  a request.
\<close>

definition lookup_llm :: chat_model where
  "lookup_llm =
     \<lparr>responses =
        (\<lambda>i. if i = 0
             then Inr (AIMessage [] [ToolCall ''perplexity_ask'' ''ACME ticker'' ''call_1''])
             else Inr (AIMessage ''ACME Ltd. (NSE:ACME)'' [])),
      received = []\<rparr>"

definition lookup_tools :: toolbox where
  "lookup_tools = \<lparr>results = (\<lambda>i c. Inr ''NSE:ACME''), executed = []\<rparr>"

definition analyze_acme :: state where
  "analyze_acme = \<lparr>messages = [HumanMessage ''Analyze ACME''], entries = Map.empty\<rparr>"

text \<open>
  A state after both analyses, the prompt the decision step builds from it, and a
  reasoning model that answers outside the three expected words.
\<close>

definition tata_prompt :: string where
  "tata_prompt =
     ''\<newline>    Based on the fundamental analysis: Strong revenue growth\<newline>    And technical analysis: Bullish breakout\<newline>    \<newline>    Make a buy, sell, or hold decision for Tata Motors Ltd. (NSE:TATAMOTORS).\<newline>    ''"

definition tata_state :: state where
  "tata_state =
     \<lparr>messages = [],
      entries = [''fundamental_analysis'' \<mapsto> ''Strong revenue growth'',
                 ''technical_analysis'' \<mapsto> ''Bullish breakout'',
                 ''stock_name'' \<mapsto> ''Tata Motors Ltd. (NSE:TATAMOTORS)'']\<rparr>"

definition undecided_llm :: chat_model where
  "undecided_llm = \<lparr>responses = (\<lambda>i. Inr (AIMessage ''wait for the next quarter'' [])), received = []\<rparr>"

text \<open>
  The end-to-end scenario: every model answers at once, without tool calls.  And a pair
  of analysis loops of which the fundamental one cannot reach its model.
\<close>

definition steady :: "message \<Rightarrow> chat_model" where
  "steady response = \<lparr>responses = (\<lambda>i. Inr response), received = []\<rparr>"

definition reliance_world :: world where
  "reliance_world =
     \<lparr>name_llm = steady (AIMessage ''Reliance Industries Ltd. (NSE:RELIANCE)'' []),
      name_tools = lookup_tools,
      analysis =
        \<lparr>fundamental_llm = steady (AIMessage ''Strong revenue growth'' []),
         fundamental_tools = lookup_tools,
         technical_llm = steady (AIMessage ''Bullish breakout'' []),
         technical_tools = lookup_tools,
         schedule = [Technical_task, Fundamental_task]\<rparr>,
      reasoning_llm = steady (AIMessage ''buy'' [])\<rparr>"

definition analyze_reliance :: state where
  "analyze_reliance =
     \<lparr>messages = [HumanMessage ''Analyze Reliance Industries''], entries = Map.empty\<rparr>"

definition failing_analysts :: analysts where
  "failing_analysts =
     \<lparr>fundamental_llm = \<lparr>responses = (\<lambda>i. Inl (External ''quota exceeded'')), received = []\<rparr>,
      fundamental_tools = lookup_tools,
      technical_llm = steady (AIMessage ''Bullish breakout'' []),
      technical_tools = lookup_tools,
      schedule = [Technical_task, Fundamental_task]\<rparr>"

section \<open>One node execution\<close>

lemma agent_of_raises:
  "preamble L st = Inl e \<Longrightarrow> agent_of L st m = (Inl e, m)"
  by (cases L)
    (auto simp: get_fundamental_analysis_def get_technical_analysis_def get_stock_name_def
      split: option.splits)

lemma agent_of_model_raises:
  "preamble L st = Inr pre \<Longrightarrow> responses m (length (received m)) = Inl e \<Longrightarrow>
   agent_of L st m = (Inl e, m\<lparr>received := received m @ [pre @ messages st]\<rparr>)"
  by (cases L)
    (auto simp: get_fundamental_analysis_def get_technical_analysis_def get_stock_name_def
      ainvoke_def Let_def split: option.splits)

lemma agent_of_responds:
  "preamble L st = Inr pre \<Longrightarrow> responses m (length (received m)) = Inr resp \<Longrightarrow>
   agent_of L st m = (Inr (agent_update L resp), m\<lparr>received := received m @ [pre @ messages st]\<rparr>)"
  by (cases L)
    (auto simp: get_fundamental_analysis_def get_technical_analysis_def get_stock_name_def
      ainvoke_def Let_def agent_update_def split: option.splits)

lemma preamble_cong: "entries st = entries st' \<Longrightarrow> preamble L st = preamble L st'"
  by (cases L) simp_all

lemma tools_condition_snoc:
  "tools_condition \<lparr>messages = ms @ [resp], entries = d\<rparr> =
     Inr (if no_tool_calls resp then To_end else To_tools)"
  by (simp add: tools_condition_def no_tool_calls_def split: option.splits)

lemma graph_step_agent:
  assumes "cursor r = Next Agent"
    and "preamble L (current r) = Inr pre"
    and "responses (llm r) (length (received (llm r))) = Inr resp"
  shows "graph_step (agent_of L) r =
     r\<lparr>cursor := (if no_tool_calls resp then Ended else Next Tool_node),
       current := \<lparr>messages = messages (current r) @ [resp],
                   entries = entries (current r) ++ entries (agent_update L resp)\<rparr>,
       llm := (llm r)\<lparr>received := received (llm r) @ [pre @ messages (current r)]\<rparr>,
       stream := stream r @ [(Agent, agent_update L resp)]\<rparr>"
  using assms
  by (simp add: graph_step_def agent_of_responds apply_update_def add_messages_def
      tools_condition_snoc agent_update_def)

lemma graph_step_tools:
  assumes "cursor r = Next Tool_node"
    and "messages (current r) = ms @ [resp]"
    and "tool_calls resp = Some calls"
    and "run_calls (results (tools r) (length (executed (tools r)))) calls = Inr out"
  shows "graph_step agent r =
     r\<lparr>cursor := Next Agent,
       current := \<lparr>messages = messages (current r) @ out, entries = entries (current r)\<rparr>,
       tools := (tools r)\<lparr>executed := executed (tools r) @ [calls]\<rparr>,
       stream := stream r @ [(Tool_node, \<lparr>messages = out, entries = Map.empty\<rparr>)]\<rparr>"
  using assms
  by (simp add: graph_step_def tool_node_def apply_update_def add_messages_def)

lemma asks_for_toolsD:
  assumes "asks_for_tools m i"
  obtains resp where "upcoming m i = Inr resp" "tool_calls resp = Some (requested m i)"
    "\<not> no_tool_calls resp" "reply m i = [resp]"
  using assms
  by (auto simp: asks_for_tools_def requested_def reply_def no_tool_calls_def
      split: sum.splits option.splits)

lemma tools_succeedD:
  "tools_succeed tb i calls \<Longrightarrow>
   run_calls (upcoming_results tb i) calls = Inr (tool_results tb i calls)"
  by (auto simp: tools_succeed_def tool_results_def split: sum.splits)

lemma run_graph_0: "run_graph agent 0 r = r"
  by (simp add: run_graph_def)

lemma run_graph_Suc: "run_graph agent (Suc n) r = graph_step agent (run_graph agent n r)"
  by (simp add: run_graph_def)

lemma run_graph_add: "run_graph agent (a + b) r = run_graph agent a (run_graph agent b r)"
  by (simp add: run_graph_def funpow_add)

lemma after_rounds_0: "after_rounds pre r 0 = r"
  by (simp add: after_rounds_def)

lemma one_round:
  assumes at: "cursor r = Next Agent"
    and pre: "preamble L (current r) = Inr pre"
    and ask: "asks_for_tools (llm r) n"
    and ok: "tools_succeed (tools r) n (requested (llm r) n)"
  shows "graph_step (agent_of L) (graph_step (agent_of L) (after_rounds pre r n)) =
         after_rounds pre r (Suc n)"
proof -
  let ?a = "after_rounds pre r n"
  from ask obtain resp where resp: "upcoming (llm r) n = Inr resp"
    "tool_calls resp = Some (requested (llm r) n)" "\<not> no_tool_calls resp"
    "reply (llm r) n = [resp]"
    by (rule asks_for_toolsD)
  have a1: "cursor ?a = Next Agent" using at by (simp add: after_rounds_def)
  have a2: "preamble L (current ?a) = Inr pre"
    using pre preamble_cong [of "current ?a" "current r" L] by (simp add: after_rounds_def)
  have a3: "responses (llm ?a) (length (received (llm ?a))) = Inr resp"
    using resp(1) by (simp add: after_rounds_def upcoming_def)
  note s1 = graph_step_agent [OF a1 a2 a3]
  let ?b = "graph_step (agent_of L) ?a"
  have b1: "cursor ?b = Next Tool_node" using resp(3) by (simp add: s1)
  have b2: "messages (current ?b) = messages (current ?a) @ [resp]" by (simp add: s1)
  have b3: "run_calls (results (tools ?b) (length (executed (tools ?b)))) (requested (llm r) n) =
      Inr (tool_results (tools r) n (requested (llm r) n))"
  proof -
    have "tools ?b = tools ?a" by (simp add: s1)
    then show ?thesis
      using tools_succeedD [OF ok] by (simp add: after_rounds_def upcoming_results_def)
  qed
  note s2 = graph_step_tools [OF b1 b2 resp(2) b3]
  show ?thesis
    unfolding s2 unfolding s1
    using resp(3,4) at
    by (cases r) (simp add: after_rounds_def agent_update_def round_updates_def)
qed

lemma rounds:
  assumes "cursor r = Next Agent"
    and "preamble L (current r) = Inr pre"
    and "\<forall>i<n. asks_for_tools (llm r) i \<and> tools_succeed (tools r) i (requested (llm r) i)"
  shows "run_graph (agent_of L) (2 * n) r = after_rounds pre r n"
  using assms(3)
proof (induction n)
  case 0
  show ?case by (simp add: run_graph_0 after_rounds_0)
next
  case (Suc n)
  then have "run_graph (agent_of L) (2 * n) r = after_rounds pre r n" by simp
  moreover have "asks_for_tools (llm r) n" "tools_succeed (tools r) n (requested (llm r) n)"
    using Suc.prems by simp_all
  ultimately show ?case
    using one_round [OF assms(1,2)] by (simp add: run_graph_Suc)
qed

lemma answersD:
  assumes "answers m i"
  obtains resp where "upcoming m i = Inr resp" "no_tool_calls resp" "reply m i = [resp]"
    "answer m i = content resp"
  using assms
  by (auto simp: answers_def reply_def answer_def split: sum.splits)

lemma graph_step_Ended: "cursor r = Ended \<Longrightarrow> graph_step agent r = r"
  by (simp add: graph_step_def)

lemma graph_step_Raised: "cursor r = Raised e \<Longrightarrow> graph_step agent r = r"
  by (simp add: graph_step_def)

lemma run_graph_Ended: "cursor r = Ended \<Longrightarrow> run_graph agent n r = r"
  by (induction n) (simp_all add: run_graph_0 run_graph_Suc graph_step_Ended)

lemma run_graph_Raised: "cursor r = Raised e \<Longrightarrow> run_graph agent n r = r"
  by (induction n) (simp_all add: run_graph_0 run_graph_Suc graph_step_Raised)

lemma final_turn:
  assumes at: "cursor r = Next Agent"
    and pre: "preamble L (current r) = Inr pre"
    and ans: "answers (llm r) n"
  shows "graph_step (agent_of L) (after_rounds pre r n) = after_answer L pre r n"
proof -
  let ?a = "after_rounds pre r n"
  from ans obtain resp where resp: "upcoming (llm r) n = Inr resp" "no_tool_calls resp"
    "reply (llm r) n = [resp]" "answer (llm r) n = content resp"
    by (rule answersD)
  have a1: "cursor ?a = Next Agent" using at by (simp add: after_rounds_def)
  have a2: "preamble L (current ?a) = Inr pre"
    using pre preamble_cong [of "current ?a" "current r" L] by (simp add: after_rounds_def)
  have a3: "responses (llm ?a) (length (received (llm ?a))) = Inr resp"
    using resp(1) by (simp add: after_rounds_def upcoming_def)
  show ?thesis
    unfolding graph_step_agent [OF a1 a2 a3]
    using resp(2,3,4)
    by (cases r) (simp add: after_rounds_def after_answer_def agent_update_def)
qed

lemma completes:
  assumes "cursor r = Next Agent"
    and "preamble L (current r) = Inr pre"
    and "\<forall>i<n. asks_for_tools (llm r) i \<and> tools_succeed (tools r) i (requested (llm r) i)"
    and "answers (llm r) n"
    and "2 * n + 1 \<le> fuel"
  shows "run_graph (agent_of L) fuel r = after_answer L pre r n"
proof -
  have "run_graph (agent_of L) (Suc (2 * n)) r = after_answer L pre r n"
    by (simp add: run_graph_Suc rounds [OF assms(1,2,3)] final_turn [OF assms(1,2,4)])
  moreover have "cursor (after_answer L pre r n) = Ended"
    by (simp add: after_answer_def)
  moreover obtain k where "fuel = k + Suc (2 * n)"
    using assms(5) by (metis Suc_eq_plus1 add.commute le_Suc_ex)
  ultimately show ?thesis
    using run_graph_add [of "agent_of L" k "Suc (2 * n)" r]
    by (simp only: run_graph_Ended)
qed

section \<open>Completed tool loops\<close>

lemma preamble_seeded:
  "L = Name_resolution \<or> entries inp ''stock_name'' \<noteq> None \<Longrightarrow> \<exists>pre. preamble L inp = Inr pre"
  by (cases L) auto

lemma run_calls_length: "run_calls f calls = Inr ms \<Longrightarrow> length ms = length calls"
  by (induction calls arbitrary: ms) (auto split: sum.splits)

lemma tool_results_length:
  "tools_succeed tb i calls \<Longrightarrow> length (tool_results tb i calls) = length calls"
  using run_calls_length [of "upcoming_results tb i" calls] tools_succeedD [of tb i calls]
  by simp

lemma transcript_length:
  assumes "\<forall>i<n. asks_for_tools m i \<and> tools_succeed tb i (requested m i)"
  shows "length (transcript m tb n) = n + (\<Sum>i<n. length (requested m i))"
  using assms
proof (induction n)
  case 0
  show ?case by simp
next
  case (Suc n)
  then have ih: "length (transcript m tb n) = n + (\<Sum>i<n. length (requested m i))" by simp
  from Suc.prems have "asks_for_tools m n" "tools_succeed tb n (requested m n)" by simp_all
  then have "length (reply m n) = 1" "length (tool_results tb n (requested m n)) = length (requested m n)"
    by (auto elim: asks_for_toolsD simp: tool_results_length)
  with ih show ?case by simp
qed

lemma messages_apply_update: "messages (apply_update st upd) = messages st @ messages upd"
  by (simp add: apply_update_def add_messages_def)

lemma graph_step_appends:
  "prefix (messages (current r)) (messages (current (graph_step agent r)))"
  by (auto simp: graph_step_def messages_apply_update Let_def
      split: cursor.splits node.splits prod.splits sum.splits)

lemma run_graph_appends:
  "j \<le> k \<Longrightarrow> prefix (messages (current (run_graph agent j r))) (messages (current (run_graph agent k r)))"
proof (induction k)
  case 0
  then show ?case by simp
next
  case (Suc k)
  show ?case
  proof (cases "j = Suc k")
    case True
    then show ?thesis by simp
  next
    case False
    with Suc have "prefix (messages (current (run_graph agent j r))) (messages (current (run_graph agent k r)))"
      by simp
    then show ?thesis
      using graph_step_appends [of "run_graph agent k r" agent]
      by (simp add: run_graph_Suc)
  qed
qed

text \<open>
  C2.  When the first response the model gives to a tool loop has no tool calls, the run
  ends with the first node execution: the model has been invoked once, no tool round has
  run, the output field of the loop holds the text of that response, and the response is
  the one message added to the stored list.  (The two analysis loops read
  \<^verbatim>\<open>state['stock_name']\<close>, so their input has to hold that key.)
\<close>

theorem answer_without_tool_calls:
  assumes "upcoming m 0 = Inr resp"
    and "no_tool_calls resp"
    and "L = Name_resolution \<or> entries inp ''stock_name'' \<noteq> None"
    and "0 < n"
  shows "let R = run_graph (agent_of L) n (start inp m tb) in
           outcome R = Some (Inr (current R)) \<and>
           length (received (llm R)) = length (received m) + 1 \<and>
           executed (tools R) = executed tb \<and>
           entries (current R) (output_field L) = Some (content resp) \<and>
           messages (current R) = messages inp @ [resp]"
proof -
  from assms(3) obtain pre where pre: "preamble L (current (start inp m tb)) = Inr pre"
    using preamble_seeded [of L inp] by (auto simp: start_def)
  have ans: "answers (llm (start inp m tb)) 0"
    using assms(1,2) by (simp add: answers_def start_def)
  have "run_graph (agent_of L) n (start inp m tb) = after_answer L pre (start inp m tb) 0"
    using assms(4) by (intro completes [OF _ pre _ ans]) (simp_all add: start_def)
  then show ?thesis
    using assms(1)
    by (simp add: Let_def after_answer_def outcome_def start_def reply_def answer_def)
qed

theorem answer_without_tool_calls_witness:
  "(let R = run_graph get_fundamental_analysis 1
        (start \<lparr>messages = [], entries = [''stock_name'' \<mapsto> ''ACME'']\<rparr>
           \<lparr>responses = (\<lambda>i. Inr (AIMessage ''sound'' [])), received = []\<rparr>
           \<lparr>results = (\<lambda>i c. Inr ''hit''), executed = []\<rparr>)
    in outcome R = Some (Inr (current R)) \<and>
       length (received (llm R)) = 1 \<and>
       entries (current R) ''fundamental_analysis'' = Some ''sound'' \<and>
       messages (current R) = [AIMessage ''sound'' []])"
  using answer_without_tool_calls [of
      "\<lparr>responses = (\<lambda>i. Inr (AIMessage ''sound'' [])), received = []\<rparr>"
      "AIMessage ''sound'' []" Fundamental
      "\<lparr>messages = [], entries = [''stock_name'' \<mapsto> ''ACME'']\<rparr>" 1
      "\<lparr>results = (\<lambda>i c. Inr ''hit''), executed = []\<rparr>"]
  by (simp add: upcoming_def no_tool_calls_def Let_def)

text \<open>
  C1.  When the first \<open>N\<close> responses each request at least one tool call (and no tool
  raises) and the next response requests none, every run that is allowed at least
  \<open>2 * N + 1\<close> node executions ends successfully after exactly \<open>N\<close> tool rounds and
  \<open>N + 1\<close> model invocations, each round executing the calls of its response.  The
  stored messages are the input's, followed by each response and the results of its tool
  calls, in order: one entry per model response and one per tool result.  The list only
  ever grows: the stored list after \<open>j\<close> node executions is a prefix of the list after
  \<open>k \<ge> j\<close>.
\<close>

theorem tool_loop_rounds:
  assumes "\<forall>i<N. asks_for_tools m i \<and> tools_succeed tb i (requested m i)"
    and "answers m N"
    and "L = Name_resolution \<or> entries inp ''stock_name'' \<noteq> None"
    and "2 * N + 1 \<le> n"
  shows "let R = run_graph (agent_of L) n (start inp m tb) in
           outcome R = Some (Inr (current R)) \<and>
           length (executed (tools R)) = length (executed tb) + N \<and>
           length (received (llm R)) = length (received m) + (N + 1) \<and>
           executed (tools R) = executed tb @ map (requested m) [0..<N] \<and>
           messages (current R) = messages inp @ transcript m tb N @ reply m N \<and>
           length (messages (current R)) =
             length (messages inp) + (N + 1) + (\<Sum>i<N. length (requested m i)) \<and>
           (\<forall>j k. j \<le> k \<longrightarrow>
              prefix (messages (current (run_graph (agent_of L) j (start inp m tb))))
                     (messages (current (run_graph (agent_of L) k (start inp m tb)))))"
proof -
  from assms(3) obtain pre where pre: "preamble L (current (start inp m tb)) = Inr pre"
    using preamble_seeded [of L inp] by (auto simp: start_def)
  have run: "run_graph (agent_of L) n (start inp m tb) = after_answer L pre (start inp m tb) N"
    using assms(1,2,4) by (intro completes [OF _ pre]) (simp_all add: start_def)
  have one: "length (reply m N) = 1"
    using assms(2) by (auto elim: answersD)
  let ?R = "run_graph (agent_of L) n (start inp m tb)"
  have "outcome ?R = Some (Inr (current ?R))"
    unfolding run by (simp add: after_answer_def outcome_def)
  moreover have "length (executed (tools ?R)) = length (executed tb) + N"
    unfolding run by (simp add: after_answer_def start_def)
  moreover have "length (received (llm ?R)) = length (received m) + (N + 1)"
    unfolding run by (simp add: after_answer_def start_def)
  moreover have "executed (tools ?R) = executed tb @ map (requested m) [0..<N]"
    unfolding run by (simp add: after_answer_def start_def)
  moreover have msgs: "messages (current ?R) = messages inp @ transcript m tb N @ reply m N"
    unfolding run by (simp add: after_answer_def start_def)
  moreover have "length (messages (current ?R)) =
      length (messages inp) + (N + 1) + (\<Sum>i<N. length (requested m i))"
    unfolding msgs using one transcript_length [OF assms(1)] by simp
  ultimately show ?thesis
    using run_graph_appends [of _ _ "agent_of L" "start inp m tb"]
    by (simp only: Let_def) blast
qed

theorem tool_loop_rounds_witness:
  "(let R = run_graph get_stock_name 3 (start analyze_acme lookup_llm lookup_tools)
    in outcome R = Some (Inr (current R)) \<and>
       length (executed (tools R)) = 1 \<and>
       length (received (llm R)) = 2 \<and>
       length (messages (current R)) = 4)"
proof -
  let ?R = "run_graph get_stock_name 3 (start analyze_acme lookup_llm lookup_tools)"
  have h1: "\<forall>i<1. asks_for_tools lookup_llm i \<and> tools_succeed lookup_tools i (requested lookup_llm i)"
    by (simp add: asks_for_tools_def tools_succeed_def requested_def upcoming_def
        upcoming_results_def lookup_llm_def lookup_tools_def)
  have h2: "answers lookup_llm 1"
    by (simp add: answers_def upcoming_def no_tool_calls_def lookup_llm_def)
  have h3: "requested lookup_llm 0 = [ToolCall ''perplexity_ask'' ''ACME ticker'' ''call_1'']"
    by (simp add: requested_def upcoming_def lookup_llm_def)
  have h4: "executed lookup_tools = []" "received lookup_llm = []" "length (messages analyze_acme) = 1"
    by (simp_all add: lookup_llm_def lookup_tools_def analyze_acme_def)
  have h5: "Name_resolution = Name_resolution \<or> entries analyze_acme ''stock_name'' \<noteq> None"
    by simp
  have h6: "2 * 1 + 1 \<le> (3::nat)"
    by simp
  note t = tool_loop_rounds [OF h1 h2 h5 h6, unfolded Let_def agent_of.simps]
  have "outcome ?R = Some (Inr (current ?R))"
    using t by blast
  moreover have "length (executed (tools ?R)) = length (executed lookup_tools) + 1"
    using t by blast
  moreover have "length (received (llm ?R)) = length (received lookup_llm) + (1 + 1)"
    using t by blast
  moreover have "length (messages (current ?R)) =
      length (messages analyze_acme) + (1 + 1) + (\<Sum>i<1. length (requested lookup_llm i))"
    using t by blast
  ultimately show ?thesis
    by (simp add: Let_def h3 h4)
qed

section \<open>The decision step\<close>

lemma emit_Inr: "emit s (Inr t) = Inr (s @ t)"
  by (simp add: emit_def)

lemma format_decision_prompt:
  "str_format DECISION_SYSTEM_PROMPT
     [''fundamental_analysis'' \<mapsto> fa, ''technical_analysis'' \<mapsto> ta, ''stock_name'' \<mapsto> sn] =
   Inr (decision_text fa ta sn)"
  by (simp add: str_format_def DECISION_SYSTEM_PROMPT_def decision_text_def emit_Inr)

lemma make_decision_invokes:
  "snd (make_decision st m) =
     m\<lparr>received := received m @
        [[HumanMessage (decision_text (dict_get st ''fundamental_analysis'' ''Not available'')
                          (dict_get st ''technical_analysis'' ''Not available'')
                          (dict_get st ''stock_name'' ''Unknown''))]]\<rparr>"
  by (simp add: make_decision_def format_decision_prompt ainvoke_def split: sum.splits)

lemma make_decision_result:
  "fst (make_decision st m) =
     (case responses m (length (received m)) of
        Inl e \<Rightarrow> Inl e
      | Inr response \<Rightarrow> Inr \<lparr>messages = [response], entries = [''decision'' \<mapsto> content response]\<rparr>)"
  by (simp add: make_decision_def format_decision_prompt ainvoke_def split: sum.splits)

lemma tata_prompt_contains:
  "contains tata_prompt ''Strong revenue growth''"
  "contains tata_prompt ''Bullish breakout''"
  "contains tata_prompt ''Tata Motors Ltd. (NSE:TATAMOTORS)''"
  by (simp_all add: tata_prompt_def)

lemma tata_prompt_filled:
  "\<not> contains tata_prompt ''{fundamental_analysis}''"
  "\<not> contains tata_prompt ''{technical_analysis}''"
  "\<not> contains tata_prompt ''{stock_name}''"
  by (simp_all add: tata_prompt_def)

text \<open>
  C6.  For a state with \<^verbatim>\<open>fundamental_analysis\<close> "Strong revenue growth",
  \<^verbatim>\<open>technical_analysis\<close> "Bullish breakout" and \<^verbatim>\<open>stock_name\<close>
  "Tata Motors Ltd. (NSE:TATAMOTORS)", the decision step invokes the reasoning model
  with one user message, the template with the three values in place of its fields.
  That prompt contains the three values verbatim and none of the three placeholders.
\<close>

theorem decision_prompt_substitution:
  assumes "entries st ''fundamental_analysis'' = Some ''Strong revenue growth''"
    and "entries st ''technical_analysis'' = Some ''Bullish breakout''"
    and "entries st ''stock_name'' = Some ''Tata Motors Ltd. (NSE:TATAMOTORS)''"
  shows "received (snd (make_decision st m)) = received m @ [[HumanMessage tata_prompt]] \<and>
         contains tata_prompt ''Strong revenue growth'' \<and>
         contains tata_prompt ''Bullish breakout'' \<and>
         contains tata_prompt ''Tata Motors Ltd. (NSE:TATAMOTORS)'' \<and>
         \<not> contains tata_prompt ''{fundamental_analysis}'' \<and>
         \<not> contains tata_prompt ''{technical_analysis}'' \<and>
         \<not> contains tata_prompt ''{stock_name}''"
proof -
  have "decision_text ''Strong revenue growth'' ''Bullish breakout''
          ''Tata Motors Ltd. (NSE:TATAMOTORS)'' = tata_prompt"
    by (simp add: decision_text_def tata_prompt_def)
  then have "received (snd (make_decision st m)) = received m @ [[HumanMessage tata_prompt]]"
    using assms by (simp add: make_decision_invokes dict_get_def)
  then show ?thesis
    using tata_prompt_contains tata_prompt_filled by simp
qed

theorem decision_prompt_substitution_witness:
  "received (snd (make_decision tata_state undecided_llm)) = [[HumanMessage tata_prompt]]"
proof -
  have "received undecided_llm = []"
    by (simp add: undecided_llm_def)
  then show ?thesis
    using decision_prompt_substitution [of tata_state undecided_llm]
    by (simp add: tata_state_def)
qed

text \<open>
  C7.  The prompt the decision step sends has "Not available" in the place of a
  missing \<^verbatim>\<open>fundamental_analysis\<close>, "Not available" in the place of a missing
  \<^verbatim>\<open>technical_analysis\<close>, and "Unknown" in the place of a missing \<^verbatim>\<open>stock_name\<close>.
\<close>

theorem decision_prompt_defaults:
  "(entries st ''fundamental_analysis'' = None \<longrightarrow>
      received (snd (make_decision st m)) =
        received m @
          [[HumanMessage (decision_text ''Not available''
                            (dict_get st ''technical_analysis'' ''Not available'')
                            (dict_get st ''stock_name'' ''Unknown''))]]) \<and>
   (entries st ''technical_analysis'' = None \<longrightarrow>
      received (snd (make_decision st m)) =
        received m @
          [[HumanMessage (decision_text (dict_get st ''fundamental_analysis'' ''Not available'')
                            ''Not available''
                            (dict_get st ''stock_name'' ''Unknown''))]]) \<and>
   (entries st ''stock_name'' = None \<longrightarrow>
      received (snd (make_decision st m)) =
        received m @
          [[HumanMessage (decision_text (dict_get st ''fundamental_analysis'' ''Not available'')
                            (dict_get st ''technical_analysis'' ''Not available'')
                            ''Unknown'')]])"
  by (simp add: make_decision_invokes dict_get_def)

theorem decision_prompt_defaults_witness:
  "received (snd (make_decision \<lparr>messages = [], entries = Map.empty\<rparr> undecided_llm)) =
     [[HumanMessage (decision_text ''Not available'' ''Not available'' ''Unknown'')]]"
  using decision_prompt_defaults [of "\<lparr>messages = [], entries = Map.empty\<rparr>" undecided_llm]
  by (simp add: undecided_llm_def dict_get_def)

text \<open>
  C8.  Whatever message the reasoning model returns, the decision step stores its text
  as \<^verbatim>\<open>decision\<close> and appends the message: there is no check against
  buy, sell and hold.
\<close>

theorem decision_not_validated:
  assumes "upcoming m 0 = Inr response"
  shows "fst (make_decision st m) =
           Inr \<lparr>messages = [response], entries = [''decision'' \<mapsto> content response]\<rparr>"
  using assms by (simp add: make_decision_result upcoming_def)

theorem decision_not_validated_witness:
  "fst (make_decision tata_state undecided_llm) =
     Inr \<lparr>messages = [AIMessage ''wait for the next quarter'' []],
          entries = [''decision'' \<mapsto> ''wait for the next quarter'']\<rparr> \<and>
   ''wait for the next quarter'' \<notin> {''buy'', ''sell'', ''hold''}"
  using decision_not_validated [of undecided_llm "AIMessage ''wait for the next quarter'' []" tata_state]
  by (simp add: upcoming_def undecided_llm_def)

section \<open>The aggregator\<close>

lemma run_graph_Suc_right: "run_graph agent (Suc n) r = run_graph agent n (graph_step agent r)"
  by (simp add: run_graph_def funpow_swap1)

lemma run_graph_Ended_mono:
  assumes "cursor (run_graph agent a r) = Ended" and "a \<le> b"
  shows "run_graph agent b r = run_graph agent a r"
proof -
  from assms(2) obtain k where "b = k + a" by (metis add.commute le_Suc_ex)
  then show ?thesis using assms(1) by (simp add: run_graph_add run_graph_Ended)
qed

lemma run_graph_Raised_mono:
  assumes "cursor (run_graph agent a r) = Raised e" and "a \<le> b"
  shows "run_graph agent b r = run_graph agent a r"
proof -
  from assms(2) obtain k where "b = k + a" by (metis add.commute le_Suc_ex)
  then show ?thesis using assms(1) by (simp add: run_graph_add run_graph_Raised)
qed

lemma Ended_not_Raised:
  assumes "cursor (run_graph agent a r) = Ended" and "cursor (run_graph agent b r) = Raised e"
  shows False
proof (cases "a \<le> b")
  case True
  have "cursor (run_graph agent b r) = Ended"
    by (simp only: run_graph_Ended_mono [OF assms(1) True] assms(1))
  with assms(2) show ?thesis by simp
next
  case False
  then have le: "b \<le> a" by simp
  have "cursor (run_graph agent a r) = Raised e"
    by (simp only: run_graph_Raised_mono [OF assms(2) le] assms(2))
  with assms(1) show ?thesis by simp
qed

lemma Ended_unique:
  assumes "cursor (run_graph agent a r) = Ended" and "cursor (run_graph agent b r) = Ended"
  shows "run_graph agent a r = run_graph agent b r"
proof (cases "a \<le> b")
  case True
  show ?thesis by (simp only: run_graph_Ended_mono [OF assms(1) True])
next
  case False
  then have le: "b \<le> a" by simp
  show ?thesis by (simp only: run_graph_Ended_mono [OF assms(2) le])
qed

lemma gather_Nil: "gather [] f t = (joined f t, f, t)"
  by simp

lemma gather_done: "joined f t = Some r \<Longrightarrow> gather (x # sched) f t = (Some r, f, t)"
  by simp

lemma gather_fundamental:
  "joined f t = None \<Longrightarrow> gather (Fundamental_task # sched) f t = gather sched (fsubgraph f) t"
  by simp

lemma gather_technical:
  "joined f t = None \<Longrightarrow> gather (Technical_task # sched) f t = gather sched f (tsubgraph t)"
  by simp

lemma gather_sound:
  "gather sched f t = (res, f', t') \<Longrightarrow>
   \<exists>a b. a \<le> count_list sched Fundamental_task \<and> b \<le> count_list sched Technical_task \<and>
         f' = run_graph get_fundamental_analysis a f \<and>
         t' = run_graph get_technical_analysis b t \<and>
         res = joined f' t' \<and>
         (res = None \<longrightarrow> a = count_list sched Fundamental_task \<and> b = count_list sched Technical_task)"
proof (induction sched arbitrary: f t)
  case Nil
  then have eq: "res = joined f t" "f' = f" "t' = t" by auto
  show ?case
  proof (intro exI conjI)
    show "0 \<le> count_list [] Fundamental_task" "0 \<le> count_list [] Technical_task" by simp_all
    show "f' = run_graph get_fundamental_analysis 0 f" by (simp only: eq run_graph_0)
    show "t' = run_graph get_technical_analysis 0 t" by (simp only: eq run_graph_0)
    show "res = joined f' t'" by (simp only: eq)
    show "res = None \<longrightarrow> 0 = count_list [] Fundamental_task \<and> 0 = count_list [] Technical_task"
      by simp
  qed
next
  case (Cons x sched)
  show ?case
  proof (cases "joined f t")
    case (Some r)
    with Cons.prems have eq: "res = Some r" "f' = f" "t' = t" by auto
    show ?thesis
    proof (intro exI conjI)
      show "0 \<le> count_list (x # sched) Fundamental_task" "0 \<le> count_list (x # sched) Technical_task"
        by simp_all
      show "f' = run_graph get_fundamental_analysis 0 f" by (simp only: eq run_graph_0)
      show "t' = run_graph get_technical_analysis 0 t" by (simp only: eq run_graph_0)
      show "res = joined f' t'" by (simp only: eq Some)
      show "res = None \<longrightarrow> 0 = count_list (x # sched) Fundamental_task \<and>
          0 = count_list (x # sched) Technical_task"
        by (simp only: eq) simp
    qed
  next
    case None
    show ?thesis
    proof (cases x)
      case Fundamental_task
      with None Cons.prems have "gather sched (fsubgraph f) t = (res, f', t')"
        by simp
      from Cons.IH [OF this] obtain a b where
        ab: "a \<le> count_list sched Fundamental_task" "b \<le> count_list sched Technical_task"
          "f' = run_graph get_fundamental_analysis a (fsubgraph f)"
          "t' = run_graph get_technical_analysis b t" "res = joined f' t'"
          "res = None \<longrightarrow> a = count_list sched Fundamental_task \<and> b = count_list sched Technical_task"
        by (elim exE conjE) (rule that)
      show ?thesis
      proof (intro exI conjI)
        show "Suc a \<le> count_list (x # sched) Fundamental_task"
          using ab(1) Fundamental_task by simp
        show "b \<le> count_list (x # sched) Technical_task"
          using ab(2) Fundamental_task by simp
        show "f' = run_graph get_fundamental_analysis (Suc a) f"
          by (simp only: ab(3) run_graph_Suc_right fsubgraph_def)
        show "t' = run_graph get_technical_analysis b t" by (rule ab(4))
        show "res = joined f' t'" by (rule ab(5))
        show "res = None \<longrightarrow> Suc a = count_list (x # sched) Fundamental_task \<and>
            b = count_list (x # sched) Technical_task"
          using ab(6) Fundamental_task by simp
      qed
    next
      case Technical_task
      with None Cons.prems have "gather sched f (tsubgraph t) = (res, f', t')"
        by simp
      from Cons.IH [OF this] obtain a b where
        ab: "a \<le> count_list sched Fundamental_task" "b \<le> count_list sched Technical_task"
          "f' = run_graph get_fundamental_analysis a f"
          "t' = run_graph get_technical_analysis b (tsubgraph t)" "res = joined f' t'"
          "res = None \<longrightarrow> a = count_list sched Fundamental_task \<and> b = count_list sched Technical_task"
        by (elim exE conjE) (rule that)
      show ?thesis
      proof (intro exI conjI)
        show "a \<le> count_list (x # sched) Fundamental_task"
          using ab(1) Technical_task by simp
        show "Suc b \<le> count_list (x # sched) Technical_task"
          using ab(2) Technical_task by simp
        show "f' = run_graph get_fundamental_analysis a f" by (rule ab(3))
        show "t' = run_graph get_technical_analysis (Suc b) t"
          by (simp only: ab(4) run_graph_Suc_right tsubgraph_def)
        show "res = joined f' t'" by (rule ab(5))
        show "res = None \<longrightarrow> a = count_list (x # sched) Fundamental_task \<and>
            Suc b = count_list (x # sched) Technical_task"
          using ab(6) Technical_task by simp
      qed
    qed
  qed
qed


lemma Raised_unique:
  assumes "cursor (run_graph agent a r) = Raised e" and "cursor (run_graph agent b r) = Raised e'"
  shows "e = e'"
proof (cases "a \<le> b")
  case True
  have "cursor (run_graph agent b r) = Raised e"
    by (simp only: run_graph_Raised_mono [OF assms(1) True] assms(1))
  with assms(2) show ?thesis by simp
next
  case False
  then have le: "b \<le> a" by simp
  have "cursor (run_graph agent a r) = Raised e'"
    by (simp only: run_graph_Raised_mono [OF assms(2) le] assms(2))
  with assms(1) show ?thesis by simp
qed

lemma joined_Inr:
  "joined f t = Some (Inr p) \<Longrightarrow> cursor f = Ended \<and> cursor t = Ended \<and> p = (current f, current t)"
  by (auto simp: joined_def split: cursor.splits)

lemma joined_Inl:
  "joined f t = Some (Inl e) \<Longrightarrow> cursor f = Raised e \<or> cursor t = Raised e"
  by (auto simp: joined_def split: cursor.splits)

lemma joined_Ended:
  "cursor f = Ended \<Longrightarrow> cursor t = Ended \<Longrightarrow> joined f t = Some (Inr (current f, current t))"
  by (simp add: joined_def)

lemma joined_Raised_left: "cursor f = Raised e \<Longrightarrow> joined f t = Some (Inl e)"
  by (simp add: joined_def)

lemma joined_Raised_right: "cursor t = Raised e \<Longrightarrow> \<exists>e'. joined f t = Some (Inl e')"
  by (simp add: joined_def split: cursor.splits)

lemma continue_to_analyses_gather:
  assumes "entries st ''stock_name'' = Some stock"
    and "gather (schedule a) (fundamental_task stock a) (technical_task stock a) = (res, f, t)"
  shows "continue_to_analyses st a =
     (case res of
        None \<Rightarrow> None
      | Some (Inl e) \<Rightarrow> Some (Inl e)
      | Some (Inr (fundamental_result, technical_result)) \<Rightarrow>
          Some (merge_results fundamental_result technical_result), f, t)"
  using assms
  by (simp add: continue_to_analyses_def split: option.splits sum.splits prod.splits)

lemma merge_results_messages:
  "merge_results fr tr = Inr upd \<Longrightarrow> messages upd = messages fr @ messages tr"
  by (auto simp: merge_results_def Let_def split: option.splits)

lemma continue_to_analyses_no_stock:
  "entries st ''stock_name'' = None \<Longrightarrow>
   fst (continue_to_analyses st a) = Some (Inl (KeyError ''stock_name''))"
  by (simp add: continue_to_analyses_def Let_def)


lemma gather_success_unique:
  assumes g1: "gather s1 f t = (Some (Inr p), f1, t1)"
    and g2: "gather s2 f t = (Some r, f2, t2)"
  shows "r = Inr p \<and> f2 = f1 \<and> t2 = t1"
proof -
  from gather_sound [OF g1] obtain a1 b1 where
    one: "f1 = run_graph get_fundamental_analysis a1 f" "t1 = run_graph get_technical_analysis b1 t"
      "Some (Inr p) = joined f1 t1"
    by (elim exE conjE) (rule that)
  from gather_sound [OF g2] obtain a2 b2 where
    two: "f2 = run_graph get_fundamental_analysis a2 f" "t2 = run_graph get_technical_analysis b2 t"
      "Some r = joined f2 t2"
    by (elim exE conjE) (rule that)
  from one(3) have e1: "cursor f1 = Ended" "cursor t1 = Ended" "p = (current f1, current t1)"
    using joined_Inr [of f1 t1 p] by simp_all
  have ef: "cursor (run_graph get_fundamental_analysis a1 f) = Ended"
    using e1(1) by (simp only: one(1))
  have et: "cursor (run_graph get_technical_analysis b1 t) = Ended"
    using e1(2) by (simp only: one(2))
  show ?thesis
  proof (cases r)
    case (Inl e)
    with two(3) have "cursor f2 = Raised e \<or> cursor t2 = Raised e"
      using joined_Inl [of f2 t2 e] by simp
    then have "cursor (run_graph get_fundamental_analysis a2 f) = Raised e \<or>
        cursor (run_graph get_technical_analysis b2 t) = Raised e"
      by (simp only: two(1,2))
    then have False
      using Ended_not_Raised [OF ef] Ended_not_Raised [OF et] by blast
    then show ?thesis ..
  next
    case (Inr q)
    with two(3) have e2: "cursor f2 = Ended" "cursor t2 = Ended" "q = (current f2, current t2)"
      using joined_Inr [of f2 t2 q] by simp_all
    have "cursor (run_graph get_fundamental_analysis a2 f) = Ended"
      using e2(1) by (simp only: two(1))
    from Ended_unique [OF this ef] have f: "f2 = f1" by (simp only: one(1) two(1))
    have "cursor (run_graph get_technical_analysis b2 t) = Ended"
      using e2(2) by (simp only: two(2))
    from Ended_unique [OF this et] have t: "t2 = t1" by (simp only: one(2) two(2))
    show ?thesis
      by (simp only: Inr e2(3) e1(3) f t)
  qed
qed

lemma gather_never_succeeds:
  assumes raised: "cursor (run_graph get_fundamental_analysis k f) = Raised e \<or>
      cursor (run_graph get_technical_analysis k t) = Raised e"
    and g: "gather s f t = (res, f', t')"
  shows "res \<noteq> Some (Inr p)"
proof
  assume "res = Some (Inr p)"
  from gather_sound [OF g] obtain a b where
    ab: "f' = run_graph get_fundamental_analysis a f" "t' = run_graph get_technical_analysis b t"
      "res = joined f' t'"
    by (elim exE conjE) (rule that)
  from \<open>res = Some (Inr p)\<close> ab(3) have "cursor f' = Ended" "cursor t' = Ended"
    using joined_Inr [of f' t' p] by simp_all
  then have "cursor (run_graph get_fundamental_analysis a f) = Ended"
    "cursor (run_graph get_technical_analysis b t) = Ended"
    by (simp_all only: ab(1,2))
  with raised show False
    using Ended_not_Raised by blast
qed

lemma gather_fails:
  assumes raised: "cursor (run_graph get_fundamental_analysis k f) = Raised e \<or>
      cursor (run_graph get_technical_analysis k t) = Raised e"
    and turns: "k \<le> count_list s Fundamental_task" "k \<le> count_list s Technical_task"
    and g: "gather s f t = (res, f', t')"
  shows "\<exists>e'. res = Some (Inl e')"
proof -
  from gather_sound [OF g] obtain a b where
    ab: "f' = run_graph get_fundamental_analysis a f" "t' = run_graph get_technical_analysis b t"
      "res = joined f' t'"
      "res = None \<longrightarrow> a = count_list s Fundamental_task \<and> b = count_list s Technical_task"
    by (elim exE conjE) (rule that)
  have "res \<noteq> None"
  proof
    assume none: "res = None"
    with ab(4) turns have le: "k \<le> a" "k \<le> b" by simp_all
    from raised show False
    proof
      assume r: "cursor (run_graph get_fundamental_analysis k f) = Raised e"
      have "cursor f' = Raised e"
        by (simp only: ab(1) run_graph_Raised_mono [OF r le(1)] r)
      from joined_Raised_left [OF this, of t'] none ab(3) show False by simp
    next
      assume r: "cursor (run_graph get_technical_analysis k t) = Raised e"
      have "cursor t' = Raised e"
        by (simp only: ab(2) run_graph_Raised_mono [OF r le(2)] r)
      from joined_Raised_right [OF this, of f'] none ab(3) show False by auto
    qed
  qed
  moreover have "res \<noteq> Some (Inr p)" for p
    by (rule gather_never_succeeds [OF raised g])
  ultimately show ?thesis
  proof (cases res)
    case None
    with \<open>res \<noteq> None\<close> show ?thesis by simp
  next
    case (Some r)
    show ?thesis
    proof (cases r)
      case (Inl e')
      with Some show ?thesis by simp
    next
      case (Inr p)
      with Some \<open>\<And>p. res \<noteq> Some (Inr p)\<close> show ?thesis by simp
    qed
  qed
qed

lemma gather_error_raised:
  assumes g: "gather s f t = (Some (Inl e), f', t')"
  shows "(\<exists>j. cursor (run_graph get_fundamental_analysis j f) = Raised e) \<or>
         (\<exists>j. cursor (run_graph get_technical_analysis j t) = Raised e)"
proof -
  from gather_sound [OF g] obtain a b where
    ab: "f' = run_graph get_fundamental_analysis a f" "t' = run_graph get_technical_analysis b t"
      "Some (Inl e) = joined f' t'"
    by (elim exE conjE) (rule that)
  from ab(3) have "cursor f' = Raised e \<or> cursor t' = Raised e"
    using joined_Inl [of f' t' e] by simp
  then have "cursor (run_graph get_fundamental_analysis a f) = Raised e \<or>
      cursor (run_graph get_technical_analysis b t) = Raised e"
    by (simp only: ab(1,2))
  then show ?thesis by blast
qed


lemma fundamental_task_schedule [simp]: "fundamental_task stock (a\<lparr>schedule := s\<rparr>) = fundamental_task stock a"
  by (simp add: fundamental_task_def)

lemma technical_task_schedule [simp]: "technical_task stock (a\<lparr>schedule := s\<rparr>) = technical_task stock a"
  by (simp add: technical_task_def)

text \<open>
  C4.  The schedule of the event loop decides which of the two analysis loops finishes
  first.  Whenever the aggregator returns a dictionary under one schedule, it returns the
  same dictionary, and leaves the two loops in the same final runs, under every schedule
  under which it returns at all.  The merged messages are those of the completed
  fundamental loop followed by those of the completed technical loop, each loop run on
  an input that holds the stock name only.
\<close>

theorem aggregator_merge_order:
  assumes one: "continue_to_analyses st (a\<lparr>schedule := s1\<rparr>) = (Some (Inr upd), f, t)"
    and two: "fst (continue_to_analyses st (a\<lparr>schedule := s2\<rparr>)) \<noteq> None"
  shows "continue_to_analyses st (a\<lparr>schedule := s2\<rparr>) = (Some (Inr upd), f, t) \<and>
         messages upd = messages (current f) @ messages (current t) \<and>
         cursor f = Ended \<and> cursor t = Ended \<and>
         (\<exists>stock. entries st ''stock_name'' = Some stock \<and>
            f = run_graph get_fundamental_analysis (length s1) (fundamental_task stock a) \<and>
            t = run_graph get_technical_analysis (length s1) (technical_task stock a))"
proof -
  obtain stock where stock: "entries st ''stock_name'' = Some stock"
    using one continue_to_analyses_no_stock [of st "a\<lparr>schedule := s1\<rparr>"]
    by (cases "entries st ''stock_name''") simp_all
  let ?F = "fundamental_task stock a" and ?T = "technical_task stock a"
  obtain res1 f1 t1 where g1: "gather s1 ?F ?T = (res1, f1, t1)"
    by (cases "gather s1 ?F ?T") blast
  note c1 = continue_to_analyses_gather [OF stock, of "a\<lparr>schedule := s1\<rparr>" res1 f1 t1]
  from one g1 c1 have ft: "f1 = f" "t1 = t" by simp_all
  from one g1 c1 obtain fr tr where res1: "res1 = Some (Inr (fr, tr))"
    and merged: "merge_results fr tr = Inr upd"
    by (auto split: option.splits sum.splits prod.splits)
  have g1': "gather s1 ?F ?T = (Some (Inr (fr, tr)), f, t)"
    using g1 res1 ft by simp
  from gather_sound [OF g1'] obtain a1 b1 where
    ab: "a1 \<le> count_list s1 Fundamental_task" "b1 \<le> count_list s1 Technical_task"
      "f = run_graph get_fundamental_analysis a1 ?F" "t = run_graph get_technical_analysis b1 ?T"
      "Some (Inr (fr, tr)) = joined f t"
    by (elim exE conjE) (rule that)
  from ab(5) have ended: "cursor f = Ended" "cursor t = Ended" and frtr: "fr = current f" "tr = current t"
    using joined_Inr [of f t "(fr, tr)"] by simp_all
  have msgs: "messages upd = messages (current f) @ messages (current t)"
    using merge_results_messages [OF merged] frtr by simp
  have long: "a1 \<le> length s1" "b1 \<le> length s1"
    using ab(1,2) count_le_length [of s1 Fundamental_task] count_le_length [of s1 Technical_task]
    by simp_all
  have "cursor (run_graph get_fundamental_analysis a1 ?F) = Ended"
    using ended(1) by (simp only: ab(3))
  from run_graph_Ended_mono [OF this long(1)]
  have f_alone: "f = run_graph get_fundamental_analysis (length s1) ?F"
    by (simp only: ab(3))
  have "cursor (run_graph get_technical_analysis b1 ?T) = Ended"
    using ended(2) by (simp only: ab(4))
  from run_graph_Ended_mono [OF this long(2)]
  have t_alone: "t = run_graph get_technical_analysis (length s1) ?T"
    by (simp only: ab(4))
  obtain res2 f2 t2 where g2: "gather s2 ?F ?T = (res2, f2, t2)"
    by (cases "gather s2 ?F ?T") blast
  note c2 = continue_to_analyses_gather [OF stock, of "a\<lparr>schedule := s2\<rparr>" res2 f2 t2]
  from two g2 c2 obtain r where res2: "res2 = Some r"
    by (cases res2) simp_all
  have g2': "gather s2 ?F ?T = (Some r, f2, t2)"
    using g2 res2 by simp
  from gather_success_unique [OF g1' g2'] have same: "r = Inr (fr, tr)" "f2 = f" "t2 = t"
    by simp_all
  have "continue_to_analyses st (a\<lparr>schedule := s2\<rparr>) = (Some (Inr upd), f, t)"
    using c2 g2 res2 same merged by simp
  with msgs ended stock f_alone t_alone show ?thesis
    by blast
qed


lemma gather_completes:
  assumes ef: "cursor (run_graph get_fundamental_analysis a f) = Ended"
    and et: "cursor (run_graph get_technical_analysis b t) = Ended"
    and turns: "a \<le> count_list s Fundamental_task" "b \<le> count_list s Technical_task"
  shows "gather s f t =
     (Some (Inr (current (run_graph get_fundamental_analysis a f),
                 current (run_graph get_technical_analysis b t))),
      run_graph get_fundamental_analysis a f, run_graph get_technical_analysis b t)"
proof -
  obtain res f' t' where g: "gather s f t = (res, f', t')"
    by (cases "gather s f t") blast
  from gather_sound [OF g] obtain a' b' where
    ab: "f' = run_graph get_fundamental_analysis a' f" "t' = run_graph get_technical_analysis b' t"
      "res = joined f' t'"
      "res = None \<longrightarrow> a' = count_list s Fundamental_task \<and> b' = count_list s Technical_task"
    by (elim exE conjE) (rule that)
  have not_raised: "cursor f' \<noteq> Raised e" "cursor t' \<noteq> Raised e" for e
  proof -
    show "cursor f' \<noteq> Raised e"
      using Ended_not_Raised [OF ef, of a' e] by (simp only: ab(1)) blast
    show "cursor t' \<noteq> Raised e"
      using Ended_not_Raised [OF et, of b' e] by (simp only: ab(2)) blast
  qed
  have "res \<noteq> None"
  proof
    assume none: "res = None"
    with ab(4) turns have le: "a \<le> a'" "b \<le> b'" by simp_all
    have "cursor f' = Ended"
      by (simp only: ab(1) run_graph_Ended_mono [OF ef le(1)] ef)
    moreover have "cursor t' = Ended"
      by (simp only: ab(2) run_graph_Ended_mono [OF et le(2)] et)
    ultimately show False
      using joined_Ended [of f' t'] none ab(3) by simp
  qed
  then obtain r where r: "res = Some r" by (cases res) simp_all
  have ended: "cursor f' = Ended \<and> cursor t' = Ended"
  proof (cases r)
    case (Inl e)
    with r ab(3) have "cursor f' = Raised e \<or> cursor t' = Raised e"
      using joined_Inl [of f' t' e] by simp
    with not_raised show ?thesis by blast
  next
    case (Inr q)
    with r ab(3) show ?thesis
      using joined_Inr [of f' t' q] by simp
  qed
  have "cursor (run_graph get_fundamental_analysis a' f) = Ended"
    using ended by (simp only: ab(1))
  from Ended_unique [OF this ef] have f': "f' = run_graph get_fundamental_analysis a f"
    by (simp only: ab(1))
  have "cursor (run_graph get_technical_analysis b' t) = Ended"
    using ended by (simp only: ab(2))
  from Ended_unique [OF this et] have t': "t' = run_graph get_technical_analysis b t"
    by (simp only: ab(2))
  have "res = Some (Inr (current f', current t'))"
    using joined_Ended [of f' t'] ended ab(3) by simp
  then show ?thesis
    by (simp only: g f' t')
qed

section \<open>The whole workflow\<close>

lemma answers_at_once:
  assumes resp: "upcoming m 0 = Inr resp" "no_tool_calls resp"
    and pre: "preamble L inp = Inr pre"
    and n: "0 < n"
  shows "run_graph (agent_of L) n (start inp m tb) =
     \<lparr>cursor = Ended,
      current = \<lparr>messages = messages inp @ [resp],
                 entries = (entries inp)(output_field L \<mapsto> content resp)\<rparr>,
      llm = m\<lparr>received := received m @ [pre @ messages inp]\<rparr>,
      tools = tb,
      stream = [(Agent, \<lparr>messages = [resp], entries = [output_field L \<mapsto> content resp]\<rparr>)]\<rparr>"
proof -
  have ans: "answers (llm (start inp m tb)) 0"
    using resp by (simp add: answers_def start_def)
  have pre': "preamble L (current (start inp m tb)) = Inr pre"
    using pre by (simp add: start_def)
  have "run_graph (agent_of L) n (start inp m tb) = after_answer L pre (start inp m tb) 0"
    using n by (intro completes [OF _ pre' _ ans]) (simp_all add: start_def)
  then show ?thesis
    using resp(1)
    by (simp add: after_answer_def start_def reply_def answer_def)
qed

lemma count_list_member: "x \<in> set xs \<Longrightarrow> 1 \<le> count_list xs x"
  using count_list_0_iff [of xs x] by (cases "count_list xs x") simp_all

lemma analyses_answer_at_once:
  assumes stock: "entries st ''stock_name'' = Some stock"
    and f: "upcoming (fundamental_llm a) 0 = Inr fr" "no_tool_calls fr"
    and t: "upcoming (technical_llm a) 0 = Inr tr" "no_tool_calls tr"
    and turns: "Fundamental_task \<in> set (schedule a)" "Technical_task \<in> set (schedule a)"
  shows "fst (continue_to_analyses st a) =
     Some (Inr \<lparr>messages = [fr, tr],
                entries = [''fundamental_analysis'' \<mapsto> content fr,
                           ''technical_analysis'' \<mapsto> content tr]\<rparr>)"
proof -
  let ?F = "run_graph get_fundamental_analysis 1 (fundamental_task stock a)"
  let ?T = "run_graph get_technical_analysis 1 (technical_task stock a)"
  have F: "?F =
     \<lparr>cursor = Ended,
      current = \<lparr>messages = [fr],
                 entries = [''stock_name'' \<mapsto> stock, ''fundamental_analysis'' \<mapsto> content fr]\<rparr>,
      llm = (fundamental_llm a)\<lparr>received := received (fundamental_llm a) @
              [[SystemMessage FUNDAMENTAL_ANALYSIS_SYSTEM_PROMPT,
                HumanMessage (''The stock to analyze is '' @ stock)]]\<rparr>,
      tools = fundamental_tools a,
      stream = [(Agent, \<lparr>messages = [fr], entries = [''fundamental_analysis'' \<mapsto> content fr]\<rparr>)]\<rparr>"
    using answers_at_once [OF f, of Fundamental _ _ 1 "fundamental_tools a"]
    by (simp add: fundamental_task_def)
  have T: "?T =
     \<lparr>cursor = Ended,
      current = \<lparr>messages = [tr],
                 entries = [''stock_name'' \<mapsto> stock, ''technical_analysis'' \<mapsto> content tr]\<rparr>,
      llm = (technical_llm a)\<lparr>received := received (technical_llm a) @
              [[SystemMessage TECHNICAL_ANALYSIS_SYSTEM_PROMPT,
                HumanMessage (''The stock to analyze is '' @ stock)]]\<rparr>,
      tools = technical_tools a,
      stream = [(Agent, \<lparr>messages = [tr], entries = [''technical_analysis'' \<mapsto> content tr]\<rparr>)]\<rparr>"
    using answers_at_once [OF t, of Technical _ _ 1 "technical_tools a"]
    by (simp add: technical_task_def)
  have ef: "cursor ?F = Ended" and et: "cursor ?T = Ended"
    by (simp_all only: F T) simp_all
  note g = gather_completes [OF ef et count_list_member [OF turns(1)] count_list_member [OF turns(2)]]
  have "merge_results (current ?F) (current ?T) =
      Inr \<lparr>messages = [fr, tr],
           entries = [''fundamental_analysis'' \<mapsto> content fr,
                      ''technical_analysis'' \<mapsto> content tr]\<rparr>"
    by (simp only: F T) (simp add: merge_results_def)
  then show ?thesis
    by (simp add: continue_to_analyses_gather [OF stock g])
qed

lemma stock_graph_after_name:
  assumes "cursor (run_graph get_stock_name n (start inp (name_llm w) (name_tools w))) = Ended"
    and "current (run_graph get_stock_name n (start inp (name_llm w) (name_tools w))) = st"
  shows "stock_graph n w inp =
     (case fst (continue_to_analyses st (analysis w)) of
        None \<Rightarrow> None
      | Some (Inl e) \<Rightarrow> Some (Inl e)
      | Some (Inr upd) \<Rightarrow>
          (case fst (make_decision (apply_update st upd) (reasoning_llm w)) of
             Inl e \<Rightarrow> Some (Inl e)
           | Inr upd' \<Rightarrow> Some (Inr (apply_update (apply_update st upd) upd'))))"
  using assms
  by (simp add: stock_graph_def Let_def split: prod.splits option.splits sum.splits)

text \<open>
  C5.  The workflow is invoked with the one user message "Analyze Reliance Industries".
  The name-resolution model answers "Reliance Industries Ltd. (NSE:RELIANCE)", the two
  analysis loops get the texts \<open>fa\<close> and \<open>ta\<close>, and the reasoning model answers "buy",
  all without tool calls.  Then, whatever the schedule of the two analysis tasks (as long
  as it lets each of them run), the final state holds the identifier, both analyses and
  the decision "buy", and its messages are the user message followed by exactly four
  model responses: name, fundamental, technical, decision.
\<close>

theorem end_to_end_reliance:
  assumes name: "upcoming (name_llm w) 0 = Inr (AIMessage ''Reliance Industries Ltd. (NSE:RELIANCE)'' [])"
    and fundamental: "upcoming (fundamental_llm (analysis w)) 0 = Inr (AIMessage fa [])"
    and technical: "upcoming (technical_llm (analysis w)) 0 = Inr (AIMessage ta [])"
    and decision: "upcoming (reasoning_llm w) 0 = Inr (AIMessage ''buy'' [])"
    and turns: "Fundamental_task \<in> set (schedule (analysis w))"
      "Technical_task \<in> set (schedule (analysis w))"
    and n: "0 < n"
  shows "stock_graph n w \<lparr>messages = [HumanMessage ''Analyze Reliance Industries''], entries = Map.empty\<rparr> =
     Some (Inr \<lparr>messages =
                  [HumanMessage ''Analyze Reliance Industries'',
                   AIMessage ''Reliance Industries Ltd. (NSE:RELIANCE)'' [],
                   AIMessage fa [],
                   AIMessage ta [],
                   AIMessage ''buy'' []],
                entries =
                  [''stock_name'' \<mapsto> ''Reliance Industries Ltd. (NSE:RELIANCE)'',
                   ''fundamental_analysis'' \<mapsto> fa,
                   ''technical_analysis'' \<mapsto> ta,
                   ''decision'' \<mapsto> ''buy'']\<rparr>)"
proof -
  let ?seed = "\<lparr>messages = [HumanMessage ''Analyze Reliance Industries''], entries = Map.empty\<rparr>"
  let ?name = "AIMessage ''Reliance Industries Ltd. (NSE:RELIANCE)'' []"
  let ?st = "\<lparr>messages = [HumanMessage ''Analyze Reliance Industries'', ?name],
              entries = [''stock_name'' \<mapsto> ''Reliance Industries Ltd. (NSE:RELIANCE)'']\<rparr>"
  have "no_tool_calls ?name"
    by (simp add: no_tool_calls_def)
  from answers_at_once [OF name this, of Name_resolution ?seed _ n "name_tools w"] n
  have loop: "cursor (run_graph get_stock_name n (start ?seed (name_llm w) (name_tools w))) = Ended"
    "current (run_graph get_stock_name n (start ?seed (name_llm w) (name_tools w))) = ?st"
    by simp_all
  have analyses: "fst (continue_to_analyses ?st (analysis w)) =
      Some (Inr \<lparr>messages = [AIMessage fa [], AIMessage ta []],
                 entries = [''fundamental_analysis'' \<mapsto> fa, ''technical_analysis'' \<mapsto> ta]\<rparr>)"
    using analyses_answer_at_once [OF _ fundamental _ technical _ turns, of ?st]
    by (simp add: no_tool_calls_def)
  have decided: "fst (make_decision st (reasoning_llm w)) =
      Inr \<lparr>messages = [AIMessage ''buy'' []], entries = [''decision'' \<mapsto> ''buy'']\<rparr>" for st
    using decision by (simp add: make_decision_result upcoming_def)
  show ?thesis
    by (simp add: stock_graph_after_name [OF loop] analyses decided apply_update_def
        add_messages_def)
qed

theorem end_to_end_reliance_witness:
  "stock_graph 1 reliance_world analyze_reliance =
     Some (Inr \<lparr>messages =
                  [HumanMessage ''Analyze Reliance Industries'',
                   AIMessage ''Reliance Industries Ltd. (NSE:RELIANCE)'' [],
                   AIMessage ''Strong revenue growth'' [],
                   AIMessage ''Bullish breakout'' [],
                   AIMessage ''buy'' []],
                entries =
                  [''stock_name'' \<mapsto> ''Reliance Industries Ltd. (NSE:RELIANCE)'',
                   ''fundamental_analysis'' \<mapsto> ''Strong revenue growth'',
                   ''technical_analysis'' \<mapsto> ''Bullish breakout'',
                   ''decision'' \<mapsto> ''buy'']\<rparr>) \<and>
   length (filter (\<lambda>m. tool_calls m \<noteq> None)
     [HumanMessage ''Analyze Reliance Industries'',
      AIMessage ''Reliance Industries Ltd. (NSE:RELIANCE)'' [],
      AIMessage ''Strong revenue growth'' [],
      AIMessage ''Bullish breakout'' [],
      AIMessage ''buy'' []]) = 4"
  using end_to_end_reliance [of reliance_world "''Strong revenue growth''" "''Bullish breakout''" 1]
  by (simp add: reliance_world_def steady_def upcoming_def analyze_reliance_def)

theorem aggregator_merge_order_witness:
  "fst (continue_to_analyses
          \<lparr>messages = [], entries = [''stock_name'' \<mapsto> ''Reliance Industries Ltd. (NSE:RELIANCE)'']\<rparr>
          ((analysis reliance_world)\<lparr>schedule := [Technical_task, Fundamental_task]\<rparr>)) =
   Some (Inr \<lparr>messages = [AIMessage ''Strong revenue growth'' [], AIMessage ''Bullish breakout'' []],
              entries = [''fundamental_analysis'' \<mapsto> ''Strong revenue growth'',
                         ''technical_analysis'' \<mapsto> ''Bullish breakout'']\<rparr>)"
proof -
  let ?st = "\<lparr>messages = [], entries = [''stock_name'' \<mapsto> ''Reliance Industries Ltd. (NSE:RELIANCE)'']\<rparr>"
  let ?a = "analysis reliance_world"
  let ?upd = "\<lparr>messages = [AIMessage ''Strong revenue growth'' [], AIMessage ''Bullish breakout'' []],
              entries = [''fundamental_analysis'' \<mapsto> ''Strong revenue growth'',
                         ''technical_analysis'' \<mapsto> ''Bullish breakout'']\<rparr>"
  have answered: "fst (continue_to_analyses ?st (?a\<lparr>schedule := s\<rparr>)) = Some (Inr ?upd)"
    if "Fundamental_task \<in> set s" "Technical_task \<in> set s" for s
    using that
      analyses_answer_at_once [of ?st _ "?a\<lparr>schedule := s\<rparr>"
        "AIMessage ''Strong revenue growth'' []" "AIMessage ''Bullish breakout'' []"]
    by (simp add: reliance_world_def steady_def upcoming_def no_tool_calls_def)
  have one: "continue_to_analyses ?st (?a\<lparr>schedule := [Fundamental_task, Technical_task]\<rparr>) =
      (Some (Inr ?upd),
       fst (snd (continue_to_analyses ?st (?a\<lparr>schedule := [Fundamental_task, Technical_task]\<rparr>))),
       snd (snd (continue_to_analyses ?st (?a\<lparr>schedule := [Fundamental_task, Technical_task]\<rparr>))))"
    using answered [of "[Fundamental_task, Technical_task]"]
    by (simp add: prod_eq_iff)
  have two: "fst (continue_to_analyses ?st (?a\<lparr>schedule := [Technical_task, Fundamental_task]\<rparr>)) \<noteq> None"
    using answered [of "[Technical_task, Fundamental_task]"] by simp
  from aggregator_merge_order [OF one two] show ?thesis
    by simp
qed

text \<open>
  C9.  Suppose one of the two analysis loops, run on the stock name, raises an error
  after some number \<open>k\<close> of node executions.  Then under no schedule does the aggregator
  return a dictionary; once the schedule has given each task \<open>k\<close> turns, the aggregator
  has raised; what it raises is an error that one of the two loops raised; and the
  workflow that reached the aggregator with this state returns no final state.
\<close>

theorem aggregator_fails_as_a_whole:
  assumes stock: "entries st ''stock_name'' = Some stock"
    and raised: "cursor (run_graph get_fundamental_analysis k (fundamental_task stock a)) = Raised e \<or>
      cursor (run_graph get_technical_analysis k (technical_task stock a)) = Raised e"
  shows "(\<forall>upd. fst (continue_to_analyses st a) \<noteq> Some (Inr upd)) \<and>
         (k \<le> count_list (schedule a) Fundamental_task \<and> k \<le> count_list (schedule a) Technical_task \<longrightarrow>
            (\<exists>e'. fst (continue_to_analyses st a) = Some (Inl e'))) \<and>
         (\<forall>e'. fst (continue_to_analyses st a) = Some (Inl e') \<longrightarrow>
            (\<exists>j. cursor (run_graph get_fundamental_analysis j (fundamental_task stock a)) = Raised e') \<or>
            (\<exists>j. cursor (run_graph get_technical_analysis j (technical_task stock a)) = Raised e')) \<and>
         (\<forall>n w inp.
            analysis w = a \<and>
            cursor (run_graph get_stock_name n (start inp (name_llm w) (name_tools w))) = Ended \<and>
            current (run_graph get_stock_name n (start inp (name_llm w) (name_tools w))) = st \<longrightarrow>
            (\<forall>final. stock_graph n w inp \<noteq> Some (Inr final)))"
proof -
  let ?F = "fundamental_task stock a" and ?T = "technical_task stock a"
  obtain res f t where g: "gather (schedule a) ?F ?T = (res, f, t)"
    by (cases "gather (schedule a) ?F ?T") blast
  note c = continue_to_analyses_gather [OF stock g]
  have no_result: "res \<noteq> Some (Inr p)" for p
    by (rule gather_never_succeeds [OF raised g])
  have shape: "(res = None \<and> fst (continue_to_analyses st a) = None) \<or>
      (\<exists>e0. res = Some (Inl e0) \<and> fst (continue_to_analyses st a) = Some (Inl e0))"
  proof (cases res)
    case None
    then show ?thesis by (simp add: c)
  next
    case (Some r)
    show ?thesis
    proof (cases r)
      case (Inl e0)
      with Some show ?thesis by (simp add: c)
    next
      case (Inr p)
      with Some no_result [of p] show ?thesis by simp
    qed
  qed
  have 1: "fst (continue_to_analyses st a) \<noteq> Some (Inr upd)" for upd
    using shape by auto
  have 2: "\<exists>e'. fst (continue_to_analyses st a) = Some (Inl e')"
    if "k \<le> count_list (schedule a) Fundamental_task" "k \<le> count_list (schedule a) Technical_task"
    using gather_fails [OF raised that g] shape by auto
  have 3: "(\<exists>j. cursor (run_graph get_fundamental_analysis j ?F) = Raised e') \<or>
      (\<exists>j. cursor (run_graph get_technical_analysis j ?T) = Raised e')"
    if "fst (continue_to_analyses st a) = Some (Inl e')" for e'
  proof -
    from that shape have "res = Some (Inl e')" by auto
    with g have "gather (schedule a) ?F ?T = (Some (Inl e'), f, t)" by simp
    then show ?thesis by (rule gather_error_raised)
  qed
  have 4: "stock_graph n w inp \<noteq> Some (Inr final)"
    if "analysis w = a"
      "cursor (run_graph get_stock_name n (start inp (name_llm w) (name_tools w))) = Ended"
      "current (run_graph get_stock_name n (start inp (name_llm w) (name_tools w))) = st"
    for n w inp final
    using shape that(1)
    by (auto simp: stock_graph_after_name [OF that(2,3)])
  from 1 2 3 4 show ?thesis
    by blast
qed

theorem aggregator_fails_as_a_whole_witness:
  "(\<forall>upd. fst (continue_to_analyses
                 \<lparr>messages = [], entries = [''stock_name'' \<mapsto> ''ACME Ltd. (NSE:ACME)'']\<rparr>
                 failing_analysts) \<noteq> Some (Inr upd)) \<and>
   (\<exists>e'. fst (continue_to_analyses
                \<lparr>messages = [], entries = [''stock_name'' \<mapsto> ''ACME Ltd. (NSE:ACME)'']\<rparr>
                failing_analysts) = Some (Inl e'))"
proof -
  let ?st = "\<lparr>messages = [], entries = [''stock_name'' \<mapsto> ''ACME Ltd. (NSE:ACME)'']\<rparr>"
  have stock: "entries ?st ''stock_name'' = Some ''ACME Ltd. (NSE:ACME)''"
    by simp
  have "cursor (run_graph get_fundamental_analysis (Suc 0)
          (fundamental_task ''ACME Ltd. (NSE:ACME)'' failing_analysts)) =
        Raised (External ''quota exceeded'')"
    by (simp add: run_graph_Suc run_graph_0 graph_step_def get_fundamental_analysis_def
        fundamental_task_def start_def failing_analysts_def ainvoke_def)
  then have raised: "cursor (run_graph get_fundamental_analysis (Suc 0)
          (fundamental_task ''ACME Ltd. (NSE:ACME)'' failing_analysts)) =
        Raised (External ''quota exceeded'') \<or>
      cursor (run_graph get_technical_analysis (Suc 0)
          (technical_task ''ACME Ltd. (NSE:ACME)'' failing_analysts)) =
        Raised (External ''quota exceeded'')"
    by (rule disjI1)
  have turns: "Suc 0 \<le> count_list (schedule failing_analysts) Fundamental_task"
    "Suc 0 \<le> count_list (schedule failing_analysts) Technical_task"
    by (simp_all add: failing_analysts_def)
  from aggregator_fails_as_a_whole [OF stock raised] turns show ?thesis
    by blast
qed

section \<open>The stream of updates\<close>

lemma rounds_append: "rounds s \<Longrightarrow> rounds (s @ s') = rounds s'"
  by (induction s rule: rounds.induct) simp_all

lemma alternates_append: "rounds s \<Longrightarrow> alternates L (s @ s') = alternates L s'"
  by (induction s rule: rounds.induct) simp_all

lemma rounds_alternates: "rounds s \<Longrightarrow> alternates L s"
  by (induction s rule: rounds.induct) simp_all

lemma run_calls_answers: "run_calls f calls = Inr ms \<Longrightarrow> answers_calls calls ms"
  by (induction calls arbitrary: ms) (auto split: sum.splits)

lemma graph_step_agent_raises:
  assumes "cursor r = Next Agent"
    and "preamble L (current r) = Inl e \<or>
      (\<exists>pre. preamble L (current r) = Inr pre) \<and>
        responses (llm r) (length (received (llm r))) = Inl e"
  shows "cursor (graph_step (agent_of L) r) = Raised e \<and>
         stream (graph_step (agent_of L) r) = stream r \<and>
         current (graph_step (agent_of L) r) = current r"
  using assms
  by (auto simp: graph_step_def agent_of_raises agent_of_model_raises)

lemma agent_update_shape:
  "(no_tool_calls resp \<longrightarrow> final L (agent_update L resp)) \<and>
   (\<not> no_tool_calls resp \<longrightarrow> asking (agent_update L resp))"
  by (simp add: final_def asking_def agent_update_def)

lemma loop_inv_agent:
  assumes at: "cursor r = Next Agent" and inv: "loop_inv L r"
  shows "loop_inv L (graph_step (agent_of L) r)"
proof -
  from inv at have rounds: "rounds (stream r)"
    by (simp add: loop_inv_def)
  show ?thesis
  proof (cases "preamble L (current r)")
    case (Inl e)
    with graph_step_agent_raises [OF at, of L e] rounds show ?thesis
      by (simp add: loop_inv_def)
  next
    case (Inr pre)
    show ?thesis
    proof (cases "responses (llm r) (length (received (llm r)))")
      case (Inl e)
      with graph_step_agent_raises [OF at, of L e] Inr rounds show ?thesis
        by (simp add: loop_inv_def)
    next
      case resp: (Inr resp)
      note step = graph_step_agent [OF at Inr resp]
      show ?thesis
      proof (cases "no_tool_calls resp")
        case True
        then show ?thesis
          using rounds agent_update_shape [of resp L]
          by (simp add: step loop_inv_def finished_def)
      next
        case False
        then show ?thesis
          using rounds agent_update_shape [of resp L]
          by (simp add: step loop_inv_def pending_def agent_update_def)
      qed
    qed
  qed
qed

lemma asking_calls:
  assumes "asking upd" and "messages upd = [resp]"
  obtains calls where "tool_calls resp = Some calls" "calls_of resp = calls"
  using assms
  by (auto simp: asking_def no_tool_calls_def calls_of_def split: option.splits)

lemma pending_snoc:
  assumes "pending s"
  shows "rounds (s @ [(Tool_node, res)]) = answered (snd (last s)) res"
proof -
  from assms have s: "s = butlast s @ [(Agent, snd (last s))]"
    and r: "rounds (butlast s)" and a: "asking (snd (last s))"
    by (simp_all add: pending_def) (metis append_butlast_last_id prod.collapse)
  have "rounds (s @ [(Tool_node, res)]) =
      rounds (butlast s @ [(Agent, snd (last s)), (Tool_node, res)])"
    using s by (metis append.assoc append_Cons append_Nil)
  also have "\<dots> = rounds [(Agent, snd (last s)), (Tool_node, res)]"
    by (rule rounds_append [OF r])
  finally show ?thesis
    using a by simp
qed

lemma loop_inv_tools:
  assumes at: "cursor r = Next Tool_node" and inv: "loop_inv L r"
  shows "loop_inv L (graph_step (agent_of L) r)"
proof -
  from inv at have pend: "pending (stream r)"
    and ne: "messages (current r) \<noteq> []"
    and resp: "messages (snd (last (stream r))) = [last (messages (current r))]"
    by (simp_all add: loop_inv_def)
  from pend have "asking (snd (last (stream r)))"
    by (simp add: pending_def)
  from asking_calls [OF this resp] obtain calls where
    calls: "tool_calls (last (messages (current r))) = Some calls"
      "calls_of (last (messages (current r))) = calls"
    by blast
  show ?thesis
  proof (cases "run_calls (results (tools r) (length (executed (tools r)))) calls")
    case (Inl e)
    then have "cursor (graph_step (agent_of L) r) = Raised e"
      "stream (graph_step (agent_of L) r) = stream r"
      using at ne calls(1) by (simp_all add: graph_step_def tool_node_def)
    with pend show ?thesis
      by (simp add: loop_inv_def)
  next
    case (Inr ms)
    then have step: "cursor (graph_step (agent_of L) r) = Next Agent"
      "stream (graph_step (agent_of L) r) =
         stream r @ [(Tool_node, \<lparr>messages = ms, entries = Map.empty\<rparr>)]"
      using at ne calls(1) by (simp_all add: graph_step_def tool_node_def)
    have "answered (snd (last (stream r))) \<lparr>messages = ms, entries = Map.empty\<rparr>"
      using run_calls_answers [OF Inr] resp calls(2) by (simp add: answered_def)
    then show ?thesis
      using pending_snoc [OF pend] by (simp add: loop_inv_def step)
  qed
qed

lemma loop_inv_step: "loop_inv L r \<Longrightarrow> loop_inv L (graph_step (agent_of L) r)"
proof (cases "cursor r")
  case (Next nd)
  then show "loop_inv L r \<Longrightarrow> loop_inv L (graph_step (agent_of L) r)"
    using loop_inv_agent [of r L] loop_inv_tools [of r L] by (cases nd) simp_all
next
  case Ended
  then show "loop_inv L r \<Longrightarrow> loop_inv L (graph_step (agent_of L) r)"
    by (simp add: graph_step_Ended)
next
  case (Raised e)
  then show "loop_inv L r \<Longrightarrow> loop_inv L (graph_step (agent_of L) r)"
    by (simp add: graph_step_Raised)
qed

lemma loop_inv_start: "loop_inv L (start inp m tb)"
  by (simp add: loop_inv_def start_def)

lemma loop_inv_run: "loop_inv L (run_graph (agent_of L) n (start inp m tb))"
  by (induction n) (simp_all add: run_graph_0 run_graph_Suc loop_inv_start loop_inv_step)

lemma asking_turn_ok: "asking upd \<Longrightarrow> turn_ok L (Agent, upd) \<and> writes L [(Agent, upd)] = []"
  by (auto simp: asking_def turn_ok_def writes_def split: list.splits)

lemma final_turn_ok: "final L upd \<Longrightarrow> turn_ok L (Agent, upd) \<and> writes L [(Agent, upd)] = [(Agent, upd)]"
  by (auto simp: final_def turn_ok_def writes_def split: list.splits)

lemma answered_turn_ok: "answered upd res \<Longrightarrow> turn_ok L (Tool_node, res) \<and> writes L [(Tool_node, res)] = []"
  by (simp add: answered_def turn_ok_def writes_def)

lemma writes_append: "writes L (s @ s') = writes L s @ writes L s'"
  by (simp add: writes_def)

lemma asking_entries: "asking upd \<Longrightarrow> entries upd k = None"
  by (auto simp: asking_def split: list.splits)

lemma answered_entries: "answered upd res \<Longrightarrow> entries res k = None"
  by (simp add: answered_def)

lemma rounds_turns: "rounds s \<Longrightarrow> list_all (turn_ok L) s \<and> writes L s = []"
proof (induction s rule: rounds.induct)
  case 1
  show ?case by (simp add: writes_def)
next
  case (2 upd res rest)
  then have "asking upd" "answered upd res" "list_all (turn_ok L) rest" "writes L rest = []"
    by simp_all
  then show ?case
    using asking_turn_ok [of upd L] answered_turn_ok [of upd res L]
      asking_entries [of upd "output_field L"] answered_entries [of upd res "output_field L"]
    by (simp add: writes_def)
qed simp_all

lemma snoc_last: "s \<noteq> [] \<Longrightarrow> fst (last s) = nd \<Longrightarrow> s = butlast s @ [(nd, snd (last s))]"
  by (metis append_butlast_last_id prod.collapse)

lemma pending_turns:
  assumes "pending s"
  shows "list_all (turn_ok L) s \<and> writes L s = [] \<and> alternates L s"
proof -
  let ?u = "snd (last s)"
  from assms have s: "s = butlast s @ [(Agent, ?u)]"
    and r: "rounds (butlast s)" and a: "asking ?u"
    using snoc_last [of s Agent] by (simp_all add: pending_def)
  have "list_all (turn_ok L) (butlast s @ [(Agent, ?u)])"
    using rounds_turns [OF r, of L] asking_turn_ok [OF a, of L] by simp
  moreover have "writes L (butlast s @ [(Agent, ?u)]) = []"
    using rounds_turns [OF r, of L] asking_turn_ok [OF a, of L] by (simp add: writes_append)
  moreover have "alternates L (butlast s @ [(Agent, ?u)])"
    using a by (simp add: alternates_append [OF r])
  ultimately show ?thesis
    using s by simp
qed

lemma finished_turns:
  assumes "finished L s"
  shows "list_all (turn_ok L) s \<and> length (writes L s) = 1 \<and> alternates L s"
proof -
  let ?u = "snd (last s)"
  from assms have s: "s = butlast s @ [(Agent, ?u)]"
    and r: "rounds (butlast s)" and a: "final L ?u"
    using snoc_last [of s Agent] by (simp_all add: finished_def)
  have "list_all (turn_ok L) (butlast s @ [(Agent, ?u)])"
    using rounds_turns [OF r, of L] final_turn_ok [OF a] by simp
  moreover have "length (writes L (butlast s @ [(Agent, ?u)])) = 1"
    using rounds_turns [OF r, of L] final_turn_ok [OF a] by (simp add: writes_append)
  moreover have "alternates L (butlast s @ [(Agent, ?u)])"
    using a by (simp add: alternates_append [OF r])
  ultimately show ?thesis
    using s by simp
qed

text \<open>
  C3.  In every run of every tool loop, after any number of node executions: at most one
  update has written the output field; one has exactly when the run has ended; every
  agent update writes the output field exactly when its response requests no tool call
  (then with the text of that response), and tool updates write no field; and the
  stream alternates: each earlier agent update requests tools and is followed by the
  tool update that answers every one of its calls.
\<close>

theorem output_written_once:
  "let R = run_graph (agent_of L) n (start inp m tb) in
     length (writes L (stream R)) \<le> 1 \<and>
     (cursor R = Ended) = (writes L (stream R) \<noteq> []) \<and>
     list_all (turn_ok L) (stream R) \<and>
     alternates L (stream R)"
proof -
  let ?R = "run_graph (agent_of L) n (start inp m tb)"
  have inv: "loop_inv L ?R"
    by (rule loop_inv_run)
  have "length (writes L (stream ?R)) \<le> 1 \<and>
     (cursor ?R = Ended) = (writes L (stream ?R) \<noteq> []) \<and>
     list_all (turn_ok L) (stream ?R) \<and>
     alternates L (stream ?R)"
  proof (cases "cursor ?R")
    case (Next nd)
    show ?thesis
    proof (cases nd)
      case Agent
      with Next inv have "rounds (stream ?R)" by (simp add: loop_inv_def)
      then show ?thesis
        using rounds_turns [of "stream ?R" L] rounds_alternates [of "stream ?R" L] Next by simp
    next
      case Tool_node
      with Next inv have "pending (stream ?R)" by (simp add: loop_inv_def)
      then show ?thesis
        using pending_turns [of "stream ?R" L] Next by simp
    qed
  next
    case Ended
    with inv have "finished L (stream ?R)" by (simp add: loop_inv_def)
    then show ?thesis
      using finished_turns [of L "stream ?R"] Ended by auto
  next
    case (Raised e)
    with inv have "rounds (stream ?R) \<or> pending (stream ?R)" by (simp add: loop_inv_def)
    then show ?thesis
      using rounds_turns [of "stream ?R" L] rounds_alternates [of "stream ?R" L]
        pending_turns [of "stream ?R" L] Raised
      by auto
  qed
  then show ?thesis
    by (simp only: Let_def)
qed

lemma acme_run:
  "run_graph get_stock_name 3 (start analyze_acme lookup_llm lookup_tools) =
     \<lparr>cursor = Ended,
      current =
        \<lparr>messages =
           [HumanMessage ''Analyze ACME'',
            AIMessage [] [ToolCall ''perplexity_ask'' ''ACME ticker'' ''call_1''],
            ToolMessage ''NSE:ACME'' ''perplexity_ask'' ''call_1'',
            AIMessage ''ACME Ltd. (NSE:ACME)'' []],
         entries = [''stock_name'' \<mapsto> ''ACME Ltd. (NSE:ACME)'']\<rparr>,
      llm =
        lookup_llm\<lparr>received :=
          [[SystemMessage STOCK_NAME_SYSTEM_PROMPT, HumanMessage ''Analyze ACME''],
           [SystemMessage STOCK_NAME_SYSTEM_PROMPT, HumanMessage ''Analyze ACME'',
            AIMessage [] [ToolCall ''perplexity_ask'' ''ACME ticker'' ''call_1''],
            ToolMessage ''NSE:ACME'' ''perplexity_ask'' ''call_1'']]\<rparr>,
      tools = lookup_tools\<lparr>executed := [[ToolCall ''perplexity_ask'' ''ACME ticker'' ''call_1'']]\<rparr>,
      stream =
        [(Agent, \<lparr>messages = [AIMessage [] [ToolCall ''perplexity_ask'' ''ACME ticker'' ''call_1'']],
                   entries = Map.empty\<rparr>),
         (Tool_node, \<lparr>messages = [ToolMessage ''NSE:ACME'' ''perplexity_ask'' ''call_1''],
                       entries = Map.empty\<rparr>),
         (Agent, \<lparr>messages = [AIMessage ''ACME Ltd. (NSE:ACME)'' []],
                   entries = [''stock_name'' \<mapsto> ''ACME Ltd. (NSE:ACME)'']\<rparr>)]\<rparr>"
  by (simp add: run_graph_def numeral_3_eq_3 start_def analyze_acme_def lookup_llm_def
      lookup_tools_def graph_step_def get_stock_name_def ainvoke_def no_tool_calls_def
      apply_update_def add_messages_def tools_condition_def tool_node_def)

theorem output_written_once_witness:
  "let R = run_graph get_stock_name 3 (start analyze_acme lookup_llm lookup_tools) in
     cursor R = Ended \<and> length (writes Name_resolution (stream R)) = 1"
proof -
  let ?R = "run_graph get_stock_name 3 (start analyze_acme lookup_llm lookup_tools)"
  have ended: "cursor ?R = Ended"
    by (simp add: acme_run)
  from output_written_once [of Name_resolution 3 analyze_acme lookup_llm lookup_tools]
  have "length (writes Name_resolution (stream ?R)) \<le> 1"
    and "(cursor ?R = Ended) = (writes Name_resolution (stream ?R) \<noteq> [])"
    by (simp_all add: Let_def)
  with ended have "length (writes Name_resolution (stream ?R)) = 1"
    by (cases "writes Name_resolution (stream ?R)") simp_all
  with ended show ?thesis
    by (simp add: Let_def)
qed

section \<open>What reaches the model and what is stored\<close>

lemma history_append: "history (s @ s') = history s @ history s'"
  by (simp add: history_def)

lemma history_single: "history [(nd, upd)] = messages upd"
  by (simp add: history_def)

lemma sourced_iff: "sourced m s = (\<forall>i<length s. sourced_at m s i)"
  by (auto simp: sourced_def list_all_iff)

lemma sourced_at_append: "i < length s \<Longrightarrow> sourced_at m (s @ s') i = sourced_at m s i"
  by (simp add: sourced_at_def nth_append)

lemma sourced_snoc:
  "sourced m (s @ [x]) = (sourced m s \<and> sourced_at m (s @ [x]) (length s))"
  by (auto simp: sourced_iff sourced_at_append less_Suc_eq)

lemma prompted_snoc:
  "2 * j \<le> length s \<Longrightarrow> prompted pre seed (s @ s') j = prompted pre seed s j"
  by (simp add: prompted_def)

lemma map_prompted_snoc:
  "2 * n \<le> length s + 2 \<Longrightarrow>
   map (prompted pre seed (s @ s')) [0..<n] = map (prompted pre seed s) [0..<n]"
  by (rule map_cong) (auto simp: prompted_snoc)

lemma sourced_at_snoc:
  "sourced_at m (s @ [x]) (length s) =
     (if even (length s)
      then fst x = Agent \<and> messages (snd x) = reply m (length s div 2) \<and>
           length (reply m (length s div 2)) = 1
      else fst x = Tool_node \<and> list_all is_tool_message (messages (snd x)))"
  by (simp add: sourced_at_def)

lemma preamble_agent_update:
  "preamble L \<lparr>messages = ms, entries = entries st ++ entries (agent_update L resp)\<rparr> = preamble L st"
  by (cases L) (simp_all add: agent_update_def)

lemma graph_step_model_raises:
  assumes "cursor r = Next Agent"
    and "preamble L (current r) = Inr pre"
    and "responses (llm r) (length (received (llm r))) = Inl e"
  shows "graph_step (agent_of L) r =
     r\<lparr>cursor := Raised e,
       llm := (llm r)\<lparr>received := received (llm r) @ [pre @ messages (current r)]\<rparr>\<rparr>"
  using assms by (simp add: graph_step_def agent_of_model_raises)

lemma prompt_inv_received:
  assumes "prompt_inv L pre inp m r"
  shows "length (received (llm r)) = length (received m) + invocations m r"
proof -
  from assms have "received (llm r) =
      received m @ map (prompted pre (messages inp) (stream r)) [0..<invocations m r]"
    by (simp add: prompt_inv_def)
  then have "length (received (llm r)) =
      length (received m @ map (prompted pre (messages inp) (stream r)) [0..<invocations m r])"
    by (rule arg_cong)
  then show ?thesis by simp
qed

lemma prompt_inv_agent:
  assumes at: "cursor r = Next Agent" and inv: "prompt_inv L pre inp m r"
  shows "prompt_inv L pre inp m (graph_step (agent_of L) r)"
proof -
  let ?ni = "invocations m r"
  from inv at have cur: "messages (current r) = messages inp @ history (stream r)"
    and rsp: "responses (llm r) = responses m"
    and rcv: "received (llm r) = received m @ map (prompted pre (messages inp) (stream r)) [0..<?ni]"
    and src: "sourced m (stream r)"
    and len: "length (stream r) = 2 * ?ni"
    and pre: "preamble L (current r) = Inr pre"
    by (simp_all add: prompt_inv_def)
  note n = prompt_inv_received [OF inv]
  have now: "prompted pre (messages inp) (stream r) ?ni = pre @ messages (current r)"
    using len cur by (simp add: prompted_def)
  have rcv': "received (llm r) @ [pre @ messages (current r)] =
      received m @ map (prompted pre (messages inp) (stream r)) [0..<Suc ?ni]"
    using rcv now by simp
  show ?thesis
  proof (cases "responses (llm r) (length (received (llm r)))")
    case (Inl e)
    note step = graph_step_model_raises [OF at pre Inl]
    have "invocations m (graph_step (agent_of L) r) = Suc ?ni"
      using n by (simp add: step invocations_def)
    then show ?thesis
      using cur rsp src rcv' by (simp add: prompt_inv_def step)
  next
    case (Inr resp)
    note step = graph_step_agent [OF at pre Inr]
    let ?x = "(Agent, agent_update L resp)"
    have ni': "invocations m (graph_step (agent_of L) r) = Suc ?ni"
      using n by (simp add: step invocations_def)
    have "upcoming m ?ni = Inr resp"
      using Inr rsp n by (simp add: upcoming_def)
    then have "reply m ?ni = [resp]"
      by (simp add: reply_def)
    then have "sourced_at m (stream r @ [?x]) (length (stream r))"
      unfolding sourced_at_snoc using len by (simp add: agent_update_def)
    then have src': "sourced m (stream r @ [?x])"
      using src by (simp add: sourced_snoc)
    have "map (prompted pre (messages inp) (stream r @ [?x])) [0..<Suc ?ni] =
        map (prompted pre (messages inp) (stream r)) [0..<Suc ?ni]"
      using len by (intro map_prompted_snoc) simp
    then have rcv'': "received (llm r) @ [pre @ messages (current r)] =
        received m @ map (prompted pre (messages inp) (stream r @ [?x])) [0..<Suc ?ni]"
      using rcv' by simp
    have cur': "messages (current r) @ [resp] = messages inp @ history (stream r @ [?x])"
      using cur by (simp add: history_append history_single agent_update_def)
    have pre': "preamble L \<lparr>messages = messages (current r) @ [resp],
        entries = entries (current r) ++ entries (agent_update L resp)\<rparr> = Inr pre"
      using pre by (simp add: preamble_agent_update)
    show ?thesis
      unfolding prompt_inv_def step
      using cur' rsp rcv'' src' len pre' ni' [unfolded step]
      by (simp split: if_splits)
  qed
qed

lemma run_calls_tool_messages: "run_calls f calls = Inr ms \<Longrightarrow> list_all is_tool_message ms"
  by (induction calls arbitrary: ms) (auto split: sum.splits)

lemma graph_step_tools_cases:
  assumes "cursor r = Next Tool_node"
  shows "(\<exists>e tb. graph_step agent r = r\<lparr>cursor := Raised e, tools := tb\<rparr>) \<or>
         (\<exists>ms tb. list_all is_tool_message ms \<and>
            graph_step agent r =
              r\<lparr>cursor := Next Agent,
                current := \<lparr>messages = messages (current r) @ ms, entries = entries (current r)\<rparr>,
                tools := tb,
                stream := stream r @ [(Tool_node, \<lparr>messages = ms, entries = Map.empty\<rparr>)]\<rparr>)"
proof (cases "tool_node (current r) (tools r)")
  case (Pair res tb)
  show ?thesis
  proof (cases res)
    case (Inl e)
    with Pair assms have "graph_step agent r = r\<lparr>cursor := Raised e, tools := tb\<rparr>"
      by (simp add: graph_step_def)
    then show ?thesis by blast
  next
    case (Inr upd)
    with Pair obtain calls ms where "run_calls (results (tools r) (length (executed (tools r)))) calls = Inr ms"
      and upd: "upd = \<lparr>messages = ms, entries = Map.empty\<rparr>"
      by (auto simp: tool_node_def split: if_splits option.splits sum.splits)
    then have tm: "list_all is_tool_message ms"
      using run_calls_tool_messages by blast
    from Pair Inr assms upd have "graph_step agent r =
        r\<lparr>cursor := Next Agent,
          current := \<lparr>messages = messages (current r) @ ms, entries = entries (current r)\<rparr>,
          tools := tb,
          stream := stream r @ [(Tool_node, \<lparr>messages = ms, entries = Map.empty\<rparr>)]\<rparr>"
      by (simp add: graph_step_def apply_update_def add_messages_def)
    with tm show ?thesis by blast
  qed
qed

lemma prompt_inv_tools:
  assumes at: "cursor r = Next Tool_node" and inv: "prompt_inv L pre inp m r"
  shows "prompt_inv L pre inp m (graph_step (agent_of L) r)"
proof -
  let ?ni = "invocations m r"
  from inv at have cur: "messages (current r) = messages inp @ history (stream r)"
    and rsp: "responses (llm r) = responses m"
    and rcv: "received (llm r) = received m @ map (prompted pre (messages inp) (stream r)) [0..<?ni]"
    and src: "sourced m (stream r)"
    and len: "Suc (length (stream r)) = 2 * ?ni"
    and pre: "preamble L (current r) = Inr pre"
    by (simp_all add: prompt_inv_def)
  from graph_step_tools_cases [OF at, of "agent_of L"] show ?thesis
  proof (elim disjE exE conjE)
    fix e tb
    assume step: "graph_step (agent_of L) r = r\<lparr>cursor := Raised e, tools := tb\<rparr>"
    show ?thesis
      using cur rsp rcv src by (simp add: prompt_inv_def step invocations_def)
  next
    fix ms tb
    assume tm: "list_all is_tool_message ms"
      and step: "graph_step (agent_of L) r =
        r\<lparr>cursor := Next Agent,
          current := \<lparr>messages = messages (current r) @ ms, entries = entries (current r)\<rparr>,
          tools := tb,
          stream := stream r @ [(Tool_node, \<lparr>messages = ms, entries = Map.empty\<rparr>)]\<rparr>"
    let ?x = "(Tool_node, \<lparr>messages = ms, entries = Map.empty\<rparr>)"
    have ni': "invocations m (graph_step (agent_of L) r) = ?ni"
      by (simp add: step invocations_def)
    have odd: "odd (length (stream r))"
      using len by presburger
    have "sourced_at m (stream r @ [?x]) (length (stream r))"
      unfolding sourced_at_snoc using odd tm by simp
    then have src': "sourced m (stream r @ [?x])"
      using src by (simp add: sourced_snoc)
    have "map (prompted pre (messages inp) (stream r @ [?x])) [0..<?ni] =
        map (prompted pre (messages inp) (stream r)) [0..<?ni]"
      using len by (intro map_prompted_snoc) simp
    then have rcv': "received (llm r) =
        received m @ map (prompted pre (messages inp) (stream r @ [?x])) [0..<?ni]"
      using rcv by simp
    have cur': "messages (current r) @ ms = messages inp @ history (stream r @ [?x])"
      using cur by (simp add: history_append history_single)
    have pre': "preamble L \<lparr>messages = messages (current r) @ ms, entries = entries (current r)\<rparr> = Inr pre"
      using pre preamble_cong [of "\<lparr>messages = messages (current r) @ ms, entries = entries (current r)\<rparr>" "current r" L]
      by simp
    show ?thesis
      unfolding prompt_inv_def step
      using cur' rsp rcv' src' len pre' ni' [unfolded step]
      by simp
  qed
qed

lemma prompt_inv_step: "prompt_inv L pre inp m r \<Longrightarrow> prompt_inv L pre inp m (graph_step (agent_of L) r)"
proof (cases "cursor r")
  case (Next nd)
  then show "prompt_inv L pre inp m r \<Longrightarrow> prompt_inv L pre inp m (graph_step (agent_of L) r)"
    using prompt_inv_agent [of r L pre inp m] prompt_inv_tools [of r L pre inp m] by (cases nd) simp_all
next
  case Ended
  then show "prompt_inv L pre inp m r \<Longrightarrow> prompt_inv L pre inp m (graph_step (agent_of L) r)"
    by (simp add: graph_step_Ended)
next
  case (Raised e)
  then show "prompt_inv L pre inp m r \<Longrightarrow> prompt_inv L pre inp m (graph_step (agent_of L) r)"
    by (simp add: graph_step_Raised)
qed

lemma prompt_inv_start: "preamble L inp = Inr pre \<Longrightarrow> prompt_inv L pre inp m (start inp m tb)"
  by (simp add: prompt_inv_def start_def invocations_def history_def sourced_def)

lemma prompt_inv_run:
  "preamble L inp = Inr pre \<Longrightarrow> prompt_inv L pre inp m (run_graph (agent_of L) n (start inp m tb))"
  by (induction n) (simp_all add: run_graph_0 run_graph_Suc prompt_inv_start prompt_inv_step)

text \<open>
  C10.  In every run of a tool loop, the input of each model invocation is
  the prompt of the loop (for the analysis loops with the user message that names the
  stock), then the messages the run started with, then the messages of the updates made
  before that invocation.  The stored messages are those the run started with followed
  by the messages of the updates, and every update holds the model's response or tool
  messages only: the prompt is never stored.  The two analysis loops start with no
  message, so their stored messages are model responses and tool results only and their
  model inputs hold nothing of the top-level conversation; the aggregator depends on the
  top-level state through \<^verbatim>\<open>stock_name\<close> alone.  The name-resolution loop starts with
  the conversation of the caller, which stays in its stored messages: in the example run
  after the theorem the user's message is stored at the end, and it is neither a response
  of the model nor a tool result.
\<close>

theorem prompt_only_in_model_input:
  "(preamble L inp = Inr pre \<longrightarrow>
      (let R = run_graph (agent_of L) n (start inp m tb) in
         received (llm R) =
           received m @ map (prompted pre (messages inp) (stream R)) [0..<invocations m R] \<and>
         messages (current R) = messages inp @ history (stream R) \<and>
         sourced m (stream R))) \<and>
   (entries st ''stock_name'' = Some stock \<longrightarrow>
      (case continue_to_analyses st a of
         (res, f, t) \<Rightarrow>
           received (llm f) =
             received (fundamental_llm a) @
             map (prompted [SystemMessage FUNDAMENTAL_ANALYSIS_SYSTEM_PROMPT,
                            HumanMessage (''The stock to analyze is '' @ stock)] [] (stream f))
               [0..<invocations (fundamental_llm a) f] \<and>
           messages (current f) = history (stream f) \<and>
           sourced (fundamental_llm a) (stream f) \<and>
           received (llm t) =
             received (technical_llm a) @
             map (prompted [SystemMessage TECHNICAL_ANALYSIS_SYSTEM_PROMPT,
                            HumanMessage (''The stock to analyze is '' @ stock)] [] (stream t))
               [0..<invocations (technical_llm a) t] \<and>
           messages (current t) = history (stream t) \<and>
           sourced (technical_llm a) (stream t))) \<and>
   (entries st ''stock_name'' = entries st' ''stock_name'' \<longrightarrow>
      continue_to_analyses st a = continue_to_analyses st' a)"
proof (intro conjI impI)
  assume "preamble L inp = Inr pre"
  from prompt_inv_run [OF this, of m n tb]
  show "let R = run_graph (agent_of L) n (start inp m tb) in
         received (llm R) =
           received m @ map (prompted pre (messages inp) (stream R)) [0..<invocations m R] \<and>
         messages (current R) = messages inp @ history (stream R) \<and>
         sourced m (stream R)"
    by (simp add: prompt_inv_def Let_def)
next
  assume stock: "entries st ''stock_name'' = Some stock"
  let ?seed = "\<lparr>messages = [], entries = [''stock_name'' \<mapsto> stock]\<rparr>"
  obtain res f t where g: "gather (schedule a) (fundamental_task stock a) (technical_task stock a) = (res, f, t)"
    by (cases "gather (schedule a) (fundamental_task stock a) (technical_task stock a)") blast
  from gather_sound [OF g] obtain i j where
    f: "f = run_graph get_fundamental_analysis i (fundamental_task stock a)"
    and t: "t = run_graph get_technical_analysis j (technical_task stock a)"
    by (elim exE conjE) (rule that)
  have "prompt_inv Fundamental
      [SystemMessage FUNDAMENTAL_ANALYSIS_SYSTEM_PROMPT, HumanMessage (''The stock to analyze is '' @ stock)]
      ?seed (fundamental_llm a) f"
    using prompt_inv_run [of Fundamental ?seed _ "fundamental_llm a" i "fundamental_tools a"]
    by (simp add: f fundamental_task_def)
  moreover have "prompt_inv Technical
      [SystemMessage TECHNICAL_ANALYSIS_SYSTEM_PROMPT, HumanMessage (''The stock to analyze is '' @ stock)]
      ?seed (technical_llm a) t"
    using prompt_inv_run [of Technical ?seed _ "technical_llm a" j "technical_tools a"]
    by (simp add: t technical_task_def)
  ultimately show "case continue_to_analyses st a of
         (res, f, t) \<Rightarrow>
           received (llm f) =
             received (fundamental_llm a) @
             map (prompted [SystemMessage FUNDAMENTAL_ANALYSIS_SYSTEM_PROMPT,
                            HumanMessage (''The stock to analyze is '' @ stock)] [] (stream f))
               [0..<invocations (fundamental_llm a) f] \<and>
           messages (current f) = history (stream f) \<and>
           sourced (fundamental_llm a) (stream f) \<and>
           received (llm t) =
             received (technical_llm a) @
             map (prompted [SystemMessage TECHNICAL_ANALYSIS_SYSTEM_PROMPT,
                            HumanMessage (''The stock to analyze is '' @ stock)] [] (stream t))
               [0..<invocations (technical_llm a) t] \<and>
           messages (current t) = history (stream t) \<and>
           sourced (technical_llm a) (stream t)"
    by (simp add: continue_to_analyses_gather [OF stock g] prompt_inv_def)
next
  assume "entries st ''stock_name'' = entries st' ''stock_name''"
  then show "continue_to_analyses st a = continue_to_analyses st' a"
    by (simp add: continue_to_analyses_def)
qed

theorem name_loop_history_keeps_seed:
  "let R = run_graph get_stock_name 3 (start analyze_acme lookup_llm lookup_tools) in
     cursor R = Ended \<and>
     messages (current R) =
       [HumanMessage ''Analyze ACME'',
        AIMessage [] [ToolCall ''perplexity_ask'' ''ACME ticker'' ''call_1''],
        ToolMessage ''NSE:ACME'' ''perplexity_ask'' ''call_1'',
        AIMessage ''ACME Ltd. (NSE:ACME)'' []] \<and>
     history (stream R) =
       [AIMessage [] [ToolCall ''perplexity_ask'' ''ACME ticker'' ''call_1''],
        ToolMessage ''NSE:ACME'' ''perplexity_ask'' ''call_1'',
        AIMessage ''ACME Ltd. (NSE:ACME)'' []] \<and>
     HumanMessage ''Analyze ACME'' \<in> set (messages (current R)) \<and>
     HumanMessage ''Analyze ACME'' \<notin> set (history (stream R)) \<and>
     \<not> list_all (\<lambda>x. tool_calls x \<noteq> None \<or> is_tool_message x) (messages (current R))"
  by (simp add: acme_run history_def)

theorem prompt_only_in_model_input_witness:
  "let R = run_graph get_stock_name 3 (start analyze_acme lookup_llm lookup_tools) in
     received (llm R) =
       [[SystemMessage STOCK_NAME_SYSTEM_PROMPT, HumanMessage ''Analyze ACME''],
        [SystemMessage STOCK_NAME_SYSTEM_PROMPT, HumanMessage ''Analyze ACME'',
         AIMessage [] [ToolCall ''perplexity_ask'' ''ACME ticker'' ''call_1''],
         ToolMessage ''NSE:ACME'' ''perplexity_ask'' ''call_1'']] \<and>
     messages (current R) = HumanMessage ''Analyze ACME'' # history (stream R)"
proof -
  let ?R = "run_graph get_stock_name 3 (start analyze_acme lookup_llm lookup_tools)"
  have pre: "preamble Name_resolution analyze_acme = Inr [SystemMessage STOCK_NAME_SYSTEM_PROMPT]"
    by simp
  from prompt_only_in_model_input [of Name_resolution analyze_acme _ 3 lookup_llm lookup_tools]
  have "received (llm ?R) =
      received lookup_llm @
      map (prompted [SystemMessage STOCK_NAME_SYSTEM_PROMPT] (messages analyze_acme) (stream ?R))
        [0..<invocations lookup_llm ?R]"
    and "messages (current ?R) = messages analyze_acme @ history (stream ?R)"
    using pre by (simp_all add: Let_def)
  moreover have "invocations lookup_llm ?R = 2"
    unfolding invocations_def acme_run by (simp add: lookup_llm_def)
  moreover have "received lookup_llm = []" "messages analyze_acme = [HumanMessage ''Analyze ACME'']"
    by (simp_all add: lookup_llm_def analyze_acme_def)
  moreover have "map (prompted [SystemMessage STOCK_NAME_SYSTEM_PROMPT] [HumanMessage ''Analyze ACME''] (stream ?R)) [0..<2] =
      [[SystemMessage STOCK_NAME_SYSTEM_PROMPT, HumanMessage ''Analyze ACME''],
        [SystemMessage STOCK_NAME_SYSTEM_PROMPT, HumanMessage ''Analyze ACME'',
         AIMessage [] [ToolCall ''perplexity_ask'' ''ACME ticker'' ''call_1''],
         ToolMessage ''NSE:ACME'' ''perplexity_ask'' ''call_1'']]"
    by (simp add: acme_run prompted_def history_def upt_rec numeral_2_eq_2)
  ultimately show ?thesis
    by (simp add: Let_def)
qed

end
